theory Spec2Isabelle
  imports Main
begin

section \<open>JavaScript strings as used by \<^verbatim>\<open>bin/slm.js\<close>\<close>

text \<open>
  A JavaScript string is a sequence of UTF-16 code units, and every string method and
  regular expression of \<^verbatim>\<open>bin/slm.js\<close> works on code units.  A code unit is a number
  from 0 to 65535, and a string is a list of integers here; the lists that hold other
  integers are no strings of the program, and nothing below depends on their absence.
  \<open>js\<close> turns a literal into its code units.  Only the methods that the file calls
  are modelled: \<^verbatim>\<open>includes\<close>, \<^verbatim>\<open>replace\<close> with a string pattern, \<^verbatim>\<open>trim\<close>, \<^verbatim>\<open>split\<close> and the
  two global regular-expression matches.
\<close>

type_synonym code_unit = int

type_synonym jstring = "code_unit list"

abbreviation js :: "string \<Rightarrow> jstring" where
  "js s \<equiv> map of_char s"

abbreviation cu :: "char \<Rightarrow> code_unit" where
  "cu c \<equiv> of_char c"

definition starts_with :: "jstring \<Rightarrow> jstring \<Rightarrow> bool" where
  "starts_with s p = (take (length p) s = p)"

text \<open>\<^verbatim>\<open>s.includes(p)\<close>: \<open>p\<close> occurs somewhere in \<open>s\<close>.\<close>

fun js_includes :: "jstring \<Rightarrow> jstring \<Rightarrow> bool" where
  "js_includes [] p = (p = [])"
| "js_includes (c # cs) p = (starts_with (c # cs) p \<or> js_includes cs p)"

text \<open>
  The first occurrence of \<open>p\<close> in \<open>s\<close>, as the text that precedes it and the text that
  follows it.  \<open>acc\<close> holds, reversed, the code units already passed.
\<close>

fun split_first :: "jstring \<Rightarrow> jstring \<Rightarrow> jstring \<Rightarrow> (jstring \<times> jstring) option" where
  "split_first acc [] p = (if p = [] then Some (rev acc, []) else None)"
| "split_first acc (c # cs) p =
     (if starts_with (c # cs) p then Some (rev acc, drop (length p) (c # cs))
      else split_first (c # acc) cs p)"

text \<open>
  The replacement text of \<^verbatim>\<open>String.prototype.replace\<close> when the pattern is a string
  (so there are no capture groups): \<^verbatim>\<open>$$\<close> is a dollar sign, \<^verbatim>\<open>$&\<close> the matched text,
  \<^verbatim>\<open>$`\<close> the text preceding the match, \<^verbatim>\<open>$'\<close> the text following it; every other
  code unit, a dollar sign followed by anything else included, stands for itself.
\<close>

fun substitution :: "jstring \<Rightarrow> jstring \<Rightarrow> jstring \<Rightarrow> jstring \<Rightarrow> jstring" where
  "substitution matched front back [] = []"
| "substitution matched front back [c] = [c]"
| "substitution matched front back (c # d # r) =
     (if c = cu CHR ''$'' \<and> d = cu CHR ''$''
        then cu CHR ''$'' # substitution matched front back r
      else if c = cu CHR ''$'' \<and> d = cu CHR ''&''
        then matched @ substitution matched front back r
      else if c = cu CHR ''$'' \<and> d = cu CHR 0x60
        then front @ substitution matched front back r
      else if c = cu CHR ''$'' \<and> d = cu CHR 0x27
        then back @ substitution matched front back r
      else c # substitution matched front back (d # r))"

text \<open>\<^verbatim>\<open>s.replace(p, r)\<close> with strings \<open>p\<close> and \<open>r\<close>: only the first occurrence is replaced.\<close>

definition js_replace :: "jstring \<Rightarrow> jstring \<Rightarrow> jstring \<Rightarrow> jstring" where
  "js_replace s p r =
     (case split_first [] s p of
        None \<Rightarrow> s
      | Some (front, back) \<Rightarrow> front @ substitution p front back r @ back)"

text \<open>
  The class \<^verbatim>\<open>\s\<close>, which is also what \<^verbatim>\<open>trim\<close> removes: the white space and line
  terminator code units of ECMAScript (tab, line feed, vertical tab, form feed, carriage
  return, space, U+00A0, U+1680, U+2000 to U+200A, U+2028, U+2029, U+202F, U+205F,
  U+3000 and U+FEFF).
\<close>

definition is_space :: "code_unit \<Rightarrow> bool" where
  "is_space c =
     (c \<in> set [0x09, 0x0A, 0x0B, 0x0C, 0x0D, 0x20, 0xA0, 0x1680, 0x2028, 0x2029, 0x202F,
               0x205F, 0x3000, 0xFEFF]
      \<or> (0x2000 \<le> c \<and> c \<le> 0x200A))"

text \<open>The class \<^verbatim>\<open>\w\<close>: the ASCII letters, the digits and the underscore.\<close>

definition is_word :: "code_unit \<Rightarrow> bool" where
  "is_word c =
     ((48 \<le> c \<and> c \<le> 57) \<or> (65 \<le> c \<and> c \<le> 90) \<or> (97 \<le> c \<and> c \<le> 122) \<or> c = 95)"

definition js_trim :: "jstring \<Rightarrow> jstring" where
  "js_trim s = rev (dropWhile is_space (rev (dropWhile is_space s)))"

text \<open>\<^verbatim>\<open>s.split(sep)\<close> for a one-unit separator; the empty string gives one empty field.\<close>

fun js_split :: "code_unit \<Rightarrow> jstring \<Rightarrow> jstring list" where
  "js_split sep [] = [[]]"
| "js_split sep (c # cs) =
     (case js_split sep cs of
        [] \<Rightarrow> [[c]]
      | f # fs \<Rightarrow> if c = sep then [] # f # fs else (c # f) # fs)"

text \<open>
  One attempt of the pattern \<^verbatim>\<open>open \s* [cls]+ \s* }}\<close> at the start of \<open>s\<close>.  The white
  space class, the path class and the closing brace are pairwise disjoint, so the greedy
  match is the only one.  The result is the matched text.
\<close>

definition match_token :: "jstring \<Rightarrow> (code_unit \<Rightarrow> bool) \<Rightarrow> jstring \<Rightarrow> jstring option" where
  "match_token opening cls s =
     (if starts_with s opening then
        let s0 = drop (length opening) s;
            s1 = dropWhile is_space s0;
            s2 = dropWhile cls s1;
            s3 = dropWhile is_space s2
        in if takeWhile cls s1 \<noteq> [] \<and> starts_with s3 (js ''}}'')
           then Some (take (length s - length s3 + 2) s)
           else None
      else None)"

text \<open>
  \<^verbatim>\<open>s.match(/.../g)\<close>: the matches of a left-to-right scan, each attempt starting where
  the previous match ended.  The empty list stands for the \<^verbatim>\<open>null\<close> of no match.
\<close>

fun match_all :: "jstring \<Rightarrow> (code_unit \<Rightarrow> bool) \<Rightarrow> jstring \<Rightarrow> jstring list" where
  "match_all opening cls [] = []"
| "match_all opening cls (c # cs) =
     (case match_token opening cls (c # cs) of
        None \<Rightarrow> match_all opening cls cs
      | Some m \<Rightarrow> m # match_all opening cls (drop (length m - 1) cs))"

text \<open>The path class of \<^verbatim>\<open>/include{{\s*[-@/\w\.]+\s*}}/g\<close>.\<close>

definition include_char :: "code_unit \<Rightarrow> bool" where
  "include_char c = (is_word c \<or> c \<in> set (js ''-@/.''))"

text \<open>The path class of \<^verbatim>\<open>/{{\s*[\w\.\-\_]+\s*}}/g\<close>.\<close>

definition var_char :: "code_unit \<Rightarrow> bool" where
  "var_char c = (is_word c \<or> c \<in> set (js ''.-_''))"

definition include_blocks :: "jstring \<Rightarrow> jstring list" where
  "include_blocks data = match_all (js ''include{{'') include_char data"

definition var_blocks :: "jstring \<Rightarrow> jstring list" where
  "var_blocks data = match_all (js ''{{'') var_char data"

section \<open>Node's \<^verbatim>\<open>path\<close> module on POSIX\<close>

text \<open>
  \<^verbatim>\<open>bin/slm.js\<close> calls \<^verbatim>\<open>path.basename\<close>, \<^verbatim>\<open>path.dirname\<close>, \<^verbatim>\<open>path.extname\<close> and
  \<^verbatim>\<open>path.join\<close>.  The definitions below give what Node's POSIX implementation returns:
  trailing slashes are skipped before the last component is taken, and \<^verbatim>\<open>join\<close>
  normalises its result.
\<close>

definition is_slash :: "code_unit \<Rightarrow> bool" where
  "is_slash c = (c = cu CHR ''/'')"

definition not_slash :: "code_unit \<Rightarrow> bool" where
  "not_slash c = (c \<noteq> cu CHR ''/'')"

definition path_basename :: "jstring \<Rightarrow> jstring" where
  "path_basename p = rev (takeWhile not_slash (dropWhile is_slash (rev p)))"

text \<open>
  \<^verbatim>\<open>path.basename(p, suffix)\<close>.  Node compares the suffix with the last component from
  the right while it scans for the component's start: a suffix equal to the whole path
  gives the empty string, a suffix equal to the whole component is not removed, and when
  the component is a proper tail of the suffix the scan never fixes an end, so the
  slice runs to the end of the path, trailing slashes included.
\<close>

definition path_basename_ext :: "jstring \<Rightarrow> jstring \<Rightarrow> jstring" where
  "path_basename_ext p suffix =
     (if suffix = [] \<or> length p < length suffix then path_basename p
      else if suffix = p then []
      else
        let comp = takeWhile not_slash (dropWhile is_slash (rev p));
            xr = rev suffix
        in if starts_with comp xr
           then (if comp = xr then rev comp else rev (drop (length suffix) comp))
           else if starts_with xr comp then rev comp @ takeWhile is_slash (rev p)
           else rev comp)"

definition path_dirname :: "jstring \<Rightarrow> jstring" where
  "path_dirname p =
     (case p of
        [] \<Rightarrow> js ''.''
      | c # t \<Rightarrow>
          (case dropWhile not_slash (dropWhile is_slash (rev t)) of
             [] \<Rightarrow> if c = cu CHR ''/'' then js ''/'' else js ''.''
           | s # rest \<Rightarrow> if c = cu CHR ''/'' \<and> rest = [] then js ''//'' else c # rev rest))"

definition path_extname :: "jstring \<Rightarrow> jstring" where
  "path_extname p =
     (let comp = path_basename p
      in if cu CHR ''.'' \<notin> set comp then []
         else
           let e = cu CHR ''.'' # rev (takeWhile (\<lambda>c. c \<noteq> cu CHR ''.'') (rev comp))
           in if length e = length comp then []
              else if comp = js ''..'' then []
              else e)"

text \<open>
  Normalisation drops empty and \<^verbatim>\<open>.\<close> segments; \<^verbatim>\<open>..\<close> removes the segment before it,
  and is kept only in a relative path that has nothing left to remove.  \<open>acc\<close> holds the
  segments kept so far, the last one first.
\<close>

fun normalize_segments :: "bool \<Rightarrow> jstring list \<Rightarrow> jstring list \<Rightarrow> jstring list" where
  "normalize_segments up acc [] = rev acc"
| "normalize_segments up acc (s # ss) =
     (if s = [] \<or> s = js ''.'' then normalize_segments up acc ss
      else if s = js ''..'' then
        (if acc = [] \<or> hd acc = js ''..''
         then normalize_segments up (if up then s # acc else acc) ss
         else normalize_segments up (tl acc) ss)
      else normalize_segments up (s # acc) ss)"

fun join_slash :: "jstring list \<Rightarrow> jstring" where
  "join_slash [] = []"
| "join_slash [s] = s"
| "join_slash (s # t # ss) = s @ cu CHR ''/'' # join_slash (t # ss)"

definition path_normalize :: "jstring \<Rightarrow> jstring" where
  "path_normalize p =
     (if p = [] then js ''.''
      else
        let absolute = (hd p = cu CHR ''/'');
            trailing = (last p = cu CHR ''/'');
            q = join_slash (normalize_segments (\<not> absolute) [] (js_split (cu CHR ''/'') p))
        in if q = [] then (if absolute then js ''/'' else if trailing then js ''./'' else js ''.'')
           else (if absolute then js ''/'' else []) @ q @ (if trailing then js ''/'' else []))"

text \<open>\<^verbatim>\<open>path.join(a, b)\<close>: the non-empty arguments joined by a slash, then normalised.\<close>

definition path_join :: "jstring \<Rightarrow> jstring \<Rightarrow> jstring" where
  "path_join a b =
     (if a = [] then path_normalize b
      else if b = [] then path_normalize a
      else path_normalize (a @ cu CHR ''/'' # b))"

section \<open>Values, the store and the collaborators\<close>

text \<open>
  The values of the configuration: \<^verbatim>\<open>undefined\<close>, \<^verbatim>\<open>null\<close>, booleans, integers, strings,
  objects with their own properties, and functions, which are known by name only.
  Arrays and numbers that are not integers are outside the model, and an object is taken
  not to redefine its string conversion.  A locals object also holds the \<^verbatim>\<open>include\<close>
  function.
\<close>

datatype cval = JUndefined | JNull | JBool bool | JNum int | JStr jstring
  | JObj "(jstring \<times> cval) list" | JFun jstring

datatype lval = Data cval | IncludeFn

datatype exn = TypeError | RangeError | ENOENT | EISDIR | ENOTDIR | EEXIST | Thrown string

datatype fsnode = File jstring | Dir "jstring list"

datatype event =
    LogError string exn
  | LogNotify jstring
  | LogDescribe jstring jstring
  | LogWatching jstring
  | Audit cval

type_synonym ref = nat

type_synonym object = "jstring \<rightharpoonup> lval"

text \<open>
  Objects live in a store, so that two names for one locals object see each other's
  writes.  The file system maps a path to a file's contents or to a directory's entries.
\<close>

record state =
  heap :: "ref \<rightharpoonup> object"
  next_ref :: ref
  files :: "jstring \<rightharpoonup> fsnode"
  trace :: "event list"

text \<open>
  A call of \<^verbatim>\<open>include\<close>: from the store, the reference and the locals (if any) to the
  value returned or the exception thrown, and the store afterwards.
\<close>

type_synonym includer = "state \<Rightarrow> jstring \<Rightarrow> ref option \<Rightarrow> (exn + cval) \<times> state"

text \<open>
  What the program takes from outside: the modules \<^verbatim>\<open>config/slm\<close> and \<^verbatim>\<open>config/global\<close>,
  the command line option \<^verbatim>\<open>nopa11y\<close>, the environment variable \<^verbatim>\<open>NODE_ENV\<close>, the packages
  \<^verbatim>\<open>slm\<close>, \<^verbatim>\<open>marked\<close> and \<^verbatim>\<open>js-beautify\<close>, and the prototypes of the JavaScript runtime.

  The template engine runs a template on the live store.  It is given the source text,
  the file name, the base path, the function that the locals hold under \<^verbatim>\<open>include\<close>,
  the locals object and the store; it gives the HTML or the exception thrown, and the
  store as the template left it.  A template may call \<^verbatim>\<open>include\<close> and may write to any
  object it can reach.

  \<open>prototype\<close> is what a property read gives for a name that is not an own property of
  the value: an inherited property, or \<^verbatim>\<open>undefined\<close>.  \<open>replacer\<close> is the call of a function
  that \<^verbatim>\<open>replace\<close> was given as its replacement, with the matched text, its offset and the
  whole string; it gives the text to insert.
\<close>

record env =
  config :: "(jstring \<times> cval) list"
  global_base :: jstring
  global_src :: jstring
  global_dist :: jstring
  entry_views :: jstring
  slm_engine ::
    "jstring \<Rightarrow> jstring \<Rightarrow> jstring \<Rightarrow> includer \<Rightarrow> ref \<Rightarrow> state \<Rightarrow> (exn + jstring) \<times> state"
  marked :: "cval \<Rightarrow> jstring \<Rightarrow> exn + jstring"
  beautify :: "cval \<Rightarrow> cval \<Rightarrow> exn + jstring"
  prototype :: "cval \<Rightarrow> jstring \<Rightarrow> exn + cval"
  replacer :: "jstring \<Rightarrow> jstring \<Rightarrow> nat \<Rightarrow> jstring \<Rightarrow> exn + jstring"
  nopa11y :: bool
  development :: bool

record opts =
  o_config :: "(jstring \<times> cval) list"
  o_source :: jstring
  o_dist :: jstring
  o_base_path :: jstring
  o_views :: jstring
  o_ext :: jstring

definition options :: "env \<Rightarrow> opts" where
  "options e =
     (let source = path_join (global_base e) (global_src e);
          base_path = source
      in \<lparr> o_config = config e,
           o_source = source,
           o_dist = path_join (global_base e) (global_dist e),
           o_base_path = base_path,
           o_views = path_join base_path (entry_views e),
           o_ext = js ''.slm'' \<rparr>)"

definition log :: "event \<Rightarrow> state \<Rightarrow> state" where
  "log ev st = st\<lparr>trace := trace st @ [ev]\<rparr>"

fun digits :: "nat \<Rightarrow> jstring" where
  "digits n =
     (if n < 10 then [48 + int n] else digits (n div 10) @ [48 + int (n mod 10)])"

text \<open>The position that the property name \<open>k\<close> denotes in the string \<open>s\<close>, if it denotes one.\<close>

definition string_index :: "jstring \<Rightarrow> jstring \<Rightarrow> nat option" where
  "string_index s k = List.find (\<lambda>i. digits i = k) [0..<length s]"

text \<open>
  Property read \<^verbatim>\<open>obj[key]\<close>.  Reading a property of \<^verbatim>\<open>undefined\<close> or \<^verbatim>\<open>null\<close> throws.  An
  object gives its own property; a string gives its length and its code units.  Every
  other name is looked up in the prototypes.
\<close>

fun prop_get :: "env \<Rightarrow> cval \<Rightarrow> jstring \<Rightarrow> exn + cval" where
  "prop_get e JUndefined k = Inl TypeError"
| "prop_get e JNull k = Inl TypeError"
| "prop_get e (JObj kvs) k =
     (case map_of kvs k of Some v \<Rightarrow> Inr v | None \<Rightarrow> prototype e (JObj kvs) k)"
| "prop_get e (JStr s) k =
     (if k = js ''length'' then Inr (JNum (int (length s)))
      else case string_index s k of
             Some i \<Rightarrow> Inr (JStr [s ! i])
           | None \<Rightarrow> prototype e (JStr s) k)"
| "prop_get e v k = prototype e v k"

definition truthy :: "cval \<Rightarrow> bool" where
  "truthy v = (v \<noteq> JUndefined \<and> v \<noteq> JNull \<and> v \<noteq> JBool False \<and> v \<noteq> JNum 0 \<and> v \<noteq> JStr [])"

text \<open>String conversion, as \<^verbatim>\<open>replace\<close> applies it to a replacement that is not a function.\<close>

fun to_string :: "cval \<Rightarrow> jstring" where
  "to_string JUndefined = js ''undefined''"
| "to_string JNull = js ''null''"
| "to_string (JBool b) = (if b then js ''true'' else js ''false'')"
| "to_string (JNum i) = (if i < 0 then cu CHR ''-'' # digits (nat (- i)) else digits (nat i))"
| "to_string (JStr s) = s"
| "to_string (JObj kvs) = js ''[object Object]''"
| "to_string (JFun f) = js ''function '' @ f @ js ''() { [native code] }''"

text \<open>
  \<^verbatim>\<open>data.replace(element, value)\<close>.  A function given as the replacement is called when
  the pattern occurs, and what it returns is inserted as it is; any other value is
  converted to a string, in which the replacement patterns are read.
\<close>

definition replace_value :: "env \<Rightarrow> jstring \<Rightarrow> jstring \<Rightarrow> cval \<Rightarrow> exn + jstring" where
  "replace_value e data element v =
     (case v of
        JFun f \<Rightarrow>
          (case split_first [] data element of
             None \<Rightarrow> Inr data
           | Some (front, back) \<Rightarrow>
               (case replacer e f element (length front) data of
                  Inl x \<Rightarrow> Inl x
                | Inr text \<Rightarrow> Inr (front @ text @ back)))
      | _ \<Rightarrow> Inr (js_replace data element (to_string v)))"

text \<open>The default parameter \<^verbatim>\<open>locals = {}\<close>: an omitted argument is a new empty object.\<close>

definition default_locals :: "state \<Rightarrow> ref option \<Rightarrow> ref \<times> state" where
  "default_locals st locals =
     (case locals of
        Some r \<Rightarrow> (r, st)
      | None \<Rightarrow> (next_ref st,
                 st\<lparr>heap := (heap st)(next_ref st \<mapsto> Map.empty), next_ref := Suc (next_ref st)\<rparr>))"

definition object_at :: "state \<Rightarrow> ref \<Rightarrow> object" where
  "object_at st r = (case heap st r of None \<Rightarrow> Map.empty | Some ob \<Rightarrow> ob)"

text \<open>\<^verbatim>\<open>Object.assign(target, source)\<close> writes the source's properties into the target.\<close>

definition object_assign :: "ref \<Rightarrow> (jstring \<times> cval) list \<Rightarrow> state \<Rightarrow> state" where
  "object_assign r src st =
     st\<lparr>heap := (heap st)(r \<mapsto> object_at st r ++ map_of (map (\<lambda>(k, v). (k, Data v)) src))\<rparr>"

definition set_field :: "ref \<Rightarrow> jstring \<Rightarrow> lval \<Rightarrow> state \<Rightarrow> state" where
  "set_field r k v st = st\<lparr>heap := (heap st)(r \<mapsto> (object_at st r)(k \<mapsto> v))\<rparr>"

definition exists_sync :: "state \<Rightarrow> jstring \<Rightarrow> bool" where
  "exists_sync st p = (files st p \<noteq> None)"

definition read_file_sync :: "state \<Rightarrow> jstring \<Rightarrow> exn + jstring" where
  "read_file_sync st p =
     (case files st p of
        None \<Rightarrow> Inl ENOENT
      | Some (Dir names) \<Rightarrow> Inl EISDIR
      | Some (File s) \<Rightarrow> Inr s)"

definition readdir_sync :: "state \<Rightarrow> jstring \<Rightarrow> exn + jstring list" where
  "readdir_sync st p =
     (case files st p of
        None \<Rightarrow> Inl ENOENT
      | Some (File s) \<Rightarrow> Inl ENOTDIR
      | Some (Dir names) \<Rightarrow> Inr names)"

definition add_entry :: "jstring \<Rightarrow> state \<Rightarrow> state" where
  "add_entry p st =
     (case files st (path_dirname p) of
        Some (Dir names) \<Rightarrow>
          st\<lparr>files := (files st)(path_dirname p \<mapsto> Dir (List.insert (path_basename p) names))\<rparr>
      | _ \<Rightarrow> st)"

definition is_dir :: "state \<Rightarrow> jstring \<Rightarrow> bool" where
  "is_dir st p = (case files st p of Some (Dir names) \<Rightarrow> True | _ \<Rightarrow> False)"

text \<open>\<^verbatim>\<open>fs.mkdirSync(p)\<close> is not recursive: the parent has to be a directory.\<close>

definition mkdir_sync :: "state \<Rightarrow> jstring \<Rightarrow> exn + state" where
  "mkdir_sync st p =
     (if files st p \<noteq> None then Inl EEXIST
      else if \<not> is_dir st (path_dirname p) then Inl ENOENT
      else Inr (add_entry p (st\<lparr>files := (files st)(p \<mapsto> Dir [])\<rparr>)))"

text \<open>\<^verbatim>\<open>fs.writeFileSync(p, data)\<close> takes a string; \<^verbatim>\<open>undefined\<close> is a type error.\<close>

definition write_file_sync :: "state \<Rightarrow> jstring \<Rightarrow> cval \<Rightarrow> exn + state" where
  "write_file_sync st p data =
     (case data of
        JStr s \<Rightarrow>
          (if is_dir st p then Inl EISDIR
           else if \<not> is_dir st (path_dirname p) then Inl ENOENT
           else Inr (add_entry p (st\<lparr>files := (files st)(p \<mapsto> File s)\<rparr>)))
      | _ \<Rightarrow> Inl TypeError)"

section \<open>The program\<close>

definition config_prop :: "opts \<Rightarrow> jstring \<Rightarrow> cval" where
  "config_prop opt k = (case map_of (o_config opt) k of None \<Rightarrow> JUndefined | Some v \<Rightarrow> v)"

subsection \<open>\<^verbatim>\<open>write\<close>\<close>

text \<open>
  The body runs inside \<^verbatim>\<open>try\<close>; the \<^verbatim>\<open>catch\<close> logs and the function then returns
  \<^verbatim>\<open>undefined\<close>.
\<close>

definition write_js :: "env \<Rightarrow> state \<Rightarrow> jstring \<Rightarrow> cval \<Rightarrow> cval \<times> state" where
  "write_js e st file data =
     (let opt = options e;
          dist = js_replace (js_replace file (o_ext opt) (js ''.html'')) (o_views opt) (o_dist opt)
      in case (if \<not> exists_sync st (path_dirname dist) then mkdir_sync st (path_dirname dist)
               else Inr st) of
           Inl x \<Rightarrow> (JUndefined, log (LogError ''write'' x) st)
         | Inr st1 \<Rightarrow>
             (case (if truthy (config_prop opt (js ''beautify''))
                    then map_sum id JStr (beautify e data (config_prop opt (js ''beautify'')))
                    else Inr data) of
                Inl x \<Rightarrow> (JUndefined, log (LogError ''write'' x) st1)
              | Inr data' \<Rightarrow>
                  (case write_file_sync st1 dist data' of
                     Inl x \<Rightarrow> (JUndefined, log (LogError ''write'' x) st1)
                   | Inr st2 \<Rightarrow> (JStr dist, log (LogDescribe file dist) st2))))"

subsection \<open>\<^verbatim>\<open>mrkdwn.slm\<close> and \<^verbatim>\<open>mrkdwn.vars\<close>\<close>

text \<open>
  \<^verbatim>\<open>mrkdwn.slm\<close> calls \<^verbatim>\<open>include\<close>, which is defined after it and calls it back through
  \<^verbatim>\<open>compile.md\<close>.  The function \<open>inc\<close> stands for \<^verbatim>\<open>include\<close>.  An exception thrown inside
  the loop leaves it.
\<close>

definition include_file :: "jstring \<Rightarrow> jstring" where
  "include_file element =
     js_trim (js_replace (js_replace element (js ''include{{'') []) (js ''}}'') [])"

fun slm_each ::
  "env \<Rightarrow> includer \<Rightarrow> state \<Rightarrow> jstring \<Rightarrow> jstring list \<Rightarrow> (exn + jstring) \<times> state" where
  "slm_each e inc st data [] = (Inr data, st)"
| "slm_each e inc st data (element # blocks) =
     (case inc st (include_file element) None of
        (Inl x, st') \<Rightarrow> (Inl x, st')
      | (Inr compiled, st') \<Rightarrow>
          (case replace_value e data element compiled of
             Inl x \<Rightarrow> (Inl x, st')
           | Inr data' \<Rightarrow> slm_each e inc st' data' blocks))"

definition mrkdwn_slm :: "env \<Rightarrow> includer \<Rightarrow> state \<Rightarrow> jstring \<Rightarrow> (exn + jstring) \<times> state" where
  "mrkdwn_slm e inc st data = slm_each e inc st data (include_blocks data)"

definition variable :: "jstring \<Rightarrow> jstring list" where
  "variable element =
     js_split (cu CHR ''.'')
       (js_trim (js_replace (js_replace (js_replace element (js ''{{'') []) (js ''}}'') [])
                   (js ''this.'') []))"

text \<open>The \<^verbatim>\<open>while\<close> loop that follows the keys into the configuration.\<close>

fun descend :: "env \<Rightarrow> cval \<Rightarrow> jstring list \<Rightarrow> exn + cval" where
  "descend e obj [] = Inr obj"
| "descend e obj (k # ks) =
     (case prop_get e obj k of Inl x \<Rightarrow> Inl x | Inr v \<Rightarrow> descend e v ks)"

fun vars_each :: "env \<Rightarrow> jstring \<Rightarrow> jstring list \<Rightarrow> exn + jstring" where
  "vars_each e data [] = Inr data"
| "vars_each e data (element # blocks) =
     (if js_includes element (js ''this.'') then
        (case descend e (JObj (o_config (options e))) (variable element) of
           Inl x \<Rightarrow> Inl x
         | Inr obj \<Rightarrow>
             (case replace_value e data element obj of
                Inl x \<Rightarrow> Inl x
              | Inr data' \<Rightarrow> vars_each e data' blocks))
      else vars_each e data blocks)"

definition mrkdwn_vars :: "env \<Rightarrow> jstring \<Rightarrow> exn + jstring" where
  "mrkdwn_vars e data = vars_each e data (var_blocks data)"

subsection \<open>\<^verbatim>\<open>compile\<close> and \<^verbatim>\<open>include\<close>\<close>

text \<open>
  Each compiler runs inside \<^verbatim>\<open>try\<close>; its \<^verbatim>\<open>catch\<close> logs the exception and the compiler
  then returns \<^verbatim>\<open>undefined\<close>.  \<^verbatim>\<open>compile.slm\<close> writes the configuration and \<^verbatim>\<open>include\<close> into
  the locals object and then runs the template on that object.
\<close>

definition compile_slm ::
  "includer \<Rightarrow> env \<Rightarrow> state \<Rightarrow> jstring \<Rightarrow> ref option \<Rightarrow> cval \<times> state" where
  "compile_slm inc e st file locals =
     (let (r, st0) = default_locals st locals
      in if \<not> exists_sync st0 file then (JStr [], st0)
         else
           (case read_file_sync st0 file of
              Inl x \<Rightarrow> (JUndefined, log (LogError ''compile.slm'' x) st0)
            | Inr src \<Rightarrow>
                let opt = options e;
                    st1 = object_assign r (o_config opt) st0;
                    st2 = set_field r (js ''include'') IncludeFn st1
                in (case slm_engine e src file (o_base_path opt) inc r st2 of
                      (Inl x, st3) \<Rightarrow> (JUndefined, log (LogError ''compile.slm'' x) st3)
                    | (Inr data, st3) \<Rightarrow>
                        if truthy (config_prop opt (js ''beautify'')) then
                          (case beautify e (JStr data) (config_prop opt (js ''beautify'')) of
                             Inl x \<Rightarrow> (JUndefined, log (LogError ''compile.slm'' x) st3)
                           | Inr pretty \<Rightarrow> (JStr pretty, st3))
                        else (JStr data, st3))))"

definition compile_md ::
  "includer \<Rightarrow> env \<Rightarrow> state \<Rightarrow> jstring \<Rightarrow> ref option \<Rightarrow> cval \<times> state" where
  "compile_md inc e st file locals =
     (let (r, st0) = default_locals st locals
      in if \<not> exists_sync st0 file then (JStr [], st0)
         else
           (case read_file_sync st0 file of
              Inl x \<Rightarrow> (JUndefined, log (LogError ''compile.md'' x) st0)
            | Inr md \<Rightarrow>
                (case marked e (config_prop (options e) (js ''marked'')) md of
                   Inl x \<Rightarrow> (JUndefined, log (LogError ''compile.md'' x) st0)
                 | Inr html \<Rightarrow>
                     (case mrkdwn_slm e inc st0 html of
                        (Inl x, st1) \<Rightarrow> (JUndefined, log (LogError ''compile.md'' x) st1)
                      | (Inr included, st1) \<Rightarrow>
                          (case mrkdwn_vars e included of
                             Inl x \<Rightarrow> (JUndefined, log (LogError ''compile.md'' x) st1)
                           | Inr out \<Rightarrow> (JStr out, st1))))))"

definition compile_default :: "env \<Rightarrow> state \<Rightarrow> jstring \<Rightarrow> ref option \<Rightarrow> cval \<times> state" where
  "compile_default e st file locals =
     (let (r, st0) = default_locals st locals
      in if \<not> exists_sync st0 file then (JStr [], st0)
         else
           (case read_file_sync st0 file of
              Inl x \<Rightarrow> (JUndefined, log (LogError ''compile.default'' x) st0)
            | Inr s \<Rightarrow> (JStr s, st0)))"

text \<open>A call that returns its value, as a call of \<^verbatim>\<open>include\<close> sees it.\<close>

definition returned :: "cval \<times> state \<Rightarrow> (exn + cval) \<times> state" where
  "returned p = (Inr (fst p), snd p)"

text \<open>
  \<^verbatim>\<open>include\<close>.  Nothing in the program stops a file from including itself, and the
  recursion then ends when the call stack is exhausted: the runtime throws a range
  error, which the \<^verbatim>\<open>try\<close> of the compiler around the call catches.  The first argument
  is the number of nested calls of \<^verbatim>\<open>include\<close> that the stack has room for.
\<close>

primrec include_js ::
  "nat \<Rightarrow> env \<Rightarrow> state \<Rightarrow> jstring \<Rightarrow> ref option \<Rightarrow> (exn + cval) \<times> state" where
  "include_js 0 e st file locals = (Inl RangeError, st)"
| "include_js (Suc n) e st file locals =
     (let (r, st0) = default_locals st locals;
          opt = options e;
          extname = (if path_extname file = [] then o_ext opt else path_extname file);
          file1 = (if path_extname file = [] then file @ o_ext opt else file);
          handler = js_replace extname (js ''.'') [];
          dir = o_source opt;
          file2 = path_join dir file1
      in if handler = js ''slm''
           then returned (compile_slm (include_js n e) e st0 file2 (Some r))
         else if handler = js ''md''
           then returned (compile_md (include_js n e) e st0 file2 (Some r))
         else if handler = js ''default''
           then returned (compile_default e st0 file2 (Some r))
         else
           (case compile_default e st0 file2 (Some r) of
              (data, st1) \<Rightarrow> (Inr data, log (LogNotify extname) st1)))"

subsection \<open>\<^verbatim>\<open>main\<close> and \<^verbatim>\<open>walk\<close>\<close>

text \<open>The first argument of \<open>main\<close> is the room that the stack has for nested includes.\<close>

definition main :: "nat \<Rightarrow> env \<Rightarrow> state \<Rightarrow> jstring \<Rightarrow> cval \<times> state" where
  "main n e st file =
     (if js_includes file (o_ext (options e)) then
        (case compile_slm (include_js n e) e st file None of
           (compiled, st1) \<Rightarrow>
             (case write_js e st1 file compiled of
                (dist, st2) \<Rightarrow> (dist, if \<not> nopa11y e then log (Audit dist) st2 else st2)))
      else (JUndefined, st))"

fun for_each :: "(state \<Rightarrow> 'a \<Rightarrow> state option) \<Rightarrow> 'a list \<Rightarrow> state \<Rightarrow> state option" where
  "for_each f [] st = Some st"
| "for_each f (x # xs) st = (case f st x of None \<Rightarrow> None | Some st' \<Rightarrow> for_each f xs st')"

text \<open>
  \<^verbatim>\<open>walk\<close>.  The first argument bounds the depth of the directory tree, \<open>None\<close> being the
  answer for a tree that is deeper; the second parameter of the source, \<^verbatim>\<open>dir = false\<close>,
  is \<open>None\<close> when it is omitted.
\<close>

primrec walk :: "nat \<Rightarrow> env \<Rightarrow> state \<Rightarrow> jstring \<Rightarrow> jstring option \<Rightarrow> state option" where
  "walk 0 e st file dir = None"
| "walk (Suc n) e st file dir =
     (let opt = options e;
          dir1 = (case dir of None \<Rightarrow> o_views opt | Some d \<Rightarrow> if d = [] then o_views opt else d);
          file1 = (if js_includes file dir1 then file else path_join dir1 file)
      in if js_includes file1 (o_ext opt) then Some (snd (main n e st file1))
         else
           (case readdir_sync st file1 of
              Inl x \<Rightarrow> Some (log (LogError ''walk'' x) st)
            | Inr names \<Rightarrow> for_each (\<lambda>s name. walk n e s name (Some file1)) (rev names) st))"

subsection \<open>The change handler of \<^verbatim>\<open>run\<close>\<close>

text \<open>The test that \<^verbatim>\<open>views.some\<close> applies to each view.\<close>

definition view_owns :: "opts \<Rightarrow> jstring \<Rightarrow> jstring \<Rightarrow> jstring \<Rightarrow> bool" where
  "view_owns opt dir changed view =
     (let pttrn = path_basename_ext view (o_ext opt)
      in js_includes (path_dirname changed) pttrn \<and> \<not> js_includes (path_dirname changed) dir)"

definition has_view :: "opts \<Rightarrow> jstring list \<Rightarrow> jstring \<Rightarrow> jstring \<Rightarrow> bool" where
  "has_view opt views dir changed = list_ex (view_owns opt dir changed) views"

text \<open>
  The handler of the watcher's \<^verbatim>\<open>change\<close> event; \<open>views\<close> and \<open>dir\<close> are the variables of
  \<^verbatim>\<open>run\<close> that it closes over.
\<close>

definition on_change ::
  "nat \<Rightarrow> env \<Rightarrow> jstring list \<Rightarrow> jstring \<Rightarrow> state \<Rightarrow> jstring \<Rightarrow> state option" where
  "on_change n e views dir st changed =
     (let opt = options e
      in if development e then
           let hasView = has_view opt views dir changed;
               inViews = js_includes changed dir;
               st1 = log (LogWatching changed) st;
               pttrn = path_basename (path_dirname changed);
               view = path_join dir (pttrn @ o_ext opt);
               changed1 = (if hasView then view else changed)
           in if hasView \<or> inViews then Some (snd (main n e st1 changed1))
              else walk n e st1 dir None
         else walk n e st dir None)"

text \<open>
  The variable \<^verbatim>\<open>views\<close> of \<^verbatim>\<open>run\<close>: the entries of the views directory that contain the
  extension.
\<close>

definition view_set :: "env \<Rightarrow> state \<Rightarrow> exn + jstring list" where
  "view_set e st =
     (let opt = options e
      in case readdir_sync st (o_views opt) of
           Inl x \<Rightarrow> Inl x
         | Inr names \<Rightarrow> Inr (filter (\<lambda>view. js_includes view (o_ext opt)) names))"

section \<open>A small site\<close>

text \<open>
  A toy template engine.  A template \<^verbatim>\<open>include f\<close> calls \<^verbatim>\<open>include\<close> on \<^verbatim>\<open>f\<close> and renders
  what it returns; any other template is a variable name, and renders the value that
  the locals give to that name.
\<close>

definition site_engine ::
  "jstring \<Rightarrow> jstring \<Rightarrow> jstring \<Rightarrow> includer \<Rightarrow> ref \<Rightarrow> state \<Rightarrow> (exn + jstring) \<times> state" where
  "site_engine src file base inc r st =
     (if starts_with src (js ''include '') then
        (case inc st (drop 8 src) None of
           (Inl x, st') \<Rightarrow> (Inl x, st')
         | (Inr v, st') \<Rightarrow> (Inr (to_string v), st'))
      else
        (case object_at st r src of
           None \<Rightarrow> (Inl (Thrown ''ReferenceError''), st)
         | Some IncludeFn \<Rightarrow> (Inr (js ''[Function: include]''), st)
         | Some (Data v) \<Rightarrow> (Inr (to_string v), st)))"

text \<open>Prototypes that know the property \<^verbatim>\<open>constructor\<close> only.\<close>

definition site_prototype :: "cval \<Rightarrow> jstring \<Rightarrow> exn + cval" where
  "site_prototype v k =
     Inr (if k = js ''constructor'' then
            JFun (case v of
                    JStr s \<Rightarrow> js ''String''
                  | JNum i \<Rightarrow> js ''Number''
                  | JBool b \<Rightarrow> js ''Boolean''
                  | JFun f \<Rightarrow> js ''Function''
                  | _ \<Rightarrow> js ''Object'')
          else JUndefined)"

definition site_replacer :: "jstring \<Rightarrow> jstring \<Rightarrow> nat \<Rightarrow> jstring \<Rightarrow> exn + jstring" where
  "site_replacer f matched offset whole =
     (if f = js ''Object'' \<or> f = js ''String'' then Inr matched
      else if f = js ''Number'' then Inr (js ''NaN'')
      else if f = js ''Boolean'' then Inr (js ''true'')
      else Inr [])"

definition site_env :: env where
  "site_env =
     \<lparr> config = [(js ''title'', JStr (js ''Patterns'')),
                 (js ''site'', JObj [(js ''name'', JStr (js ''NYC''))]),
                 (js ''include'', JStr (js ''from config''))],
       global_base = js ''/site'',
       global_src = js ''src'',
       global_dist = js ''dist'',
       entry_views = js ''views'',
       slm_engine = site_engine,
       marked = (\<lambda>options md. Inr md),
       beautify = (\<lambda>data options. Inr (to_string data)),
       prototype = site_prototype,
       replacer = site_replacer,
       nopa11y = True,
       development = True \<rparr>"

definition site_files :: "jstring \<rightharpoonup> fsnode" where
  "site_files =
     [ js ''/site/src/views'' \<mapsto>
         Dir [js ''home.slm'', js ''inc.slm'', js ''notes.slm.bak'', js ''press.slm''],
       js ''/site/src/views/home.slm'' \<mapsto> File (js ''title''),
       js ''/site/src/views/notes.slm.bak'' \<mapsto> File (js ''title''),
       js ''/site/src/views/inc.slm'' \<mapsto> File (js ''include''),
       js ''/site/src/views/press.slm'' \<mapsto> File (js ''include broken.md''),
       js ''/site/src/intro.md'' \<mapsto> File (js ''<h1>include{{ partials/lead.html }}</h1>''),
       js ''/site/src/partials/lead.html'' \<mapsto> File (js ''{{ this.title }}''),
       js ''/site/src/price.md'' \<mapsto> File (js ''<p>include{{ price.html }}</p>''),
       js ''/site/src/price.html'' \<mapsto> File (js ''cost: $$5 ($&)''),
       js ''/site/src/broken.md'' \<mapsto> File (js ''{{ this.owner.name }}''),
       js ''/site/src/loop.md'' \<mapsto> File (js ''<p>include{{ loop.md }}</p>''),
       js ''/site/dist'' \<mapsto> Dir [] ]"

definition site_state :: state where
  "site_state =
     \<lparr> heap = [0 \<mapsto> [js ''title'' \<mapsto> Data (JStr (js ''Mine'')), js ''page'' \<mapsto> Data (JNum 7),
                       js ''include'' \<mapsto> Data (JStr (js ''from locals''))]],
       next_ref = 1,
       files = site_files,
       trace = [] \<rparr>"

section \<open>Notions of the statements\<close>

text \<open>The configuration as \<^verbatim>\<open>Object.assign\<close> copies it into a locals object.\<close>

definition config_object :: "env \<Rightarrow> object" where
  "config_object e = map_of (map (\<lambda>(k, v). (k, Data v)) (config e))"

text \<open>
  The store when \<^verbatim>\<open>compile.slm\<close> starts the template: the caller's object \<open>r\<close> overlaid
  with the configuration, and \<^verbatim>\<open>include\<close> bound to the include function.
\<close>

definition template_store :: "env \<Rightarrow> ref \<Rightarrow> state \<Rightarrow> state" where
  "template_store e r st =
     st\<lparr>heap := (heap st)(r \<mapsto> (object_at st r ++ config_object e)(js ''include'' \<mapsto> IncludeFn))\<rparr>"

text \<open>
  Literal textual substitution, for comparison with \<^verbatim>\<open>replace\<close>: the first occurrence of
  \<open>p\<close> is replaced by \<open>r\<close> itself.
\<close>

definition literal_replace :: "jstring \<Rightarrow> jstring \<Rightarrow> jstring \<Rightarrow> jstring" where
  "literal_replace s p r =
     (case split_first [] s p of None \<Rightarrow> s | Some (front, back) \<Rightarrow> front @ r @ back)"

text \<open>
  The form of the text that \<^verbatim>\<open>/{{\s*[\w\.\-\_]+\s*}}/g\<close> matches, as far as the braces
  go: two opening braces, a text without a brace that is not empty, two closing braces.
\<close>

definition block_shape :: "jstring \<Rightarrow> bool" where
  "block_shape t =
     (\<exists>mid. t = js ''{{'' @ mid @ js ''}}'' \<and> mid \<noteq> []
            \<and> cu CHR ''{'' \<notin> set mid \<and> cu CHR ''}'' \<notin> set mid)"

text \<open>
  One step of rewriting a document: one occurrence of a block of \<open>B\<close> is replaced by
  some text, and every occurrence of a block of \<open>T\<close> in the document lies wholly before
  or wholly after the replaced occurrence.
\<close>

definition rewrites_block :: "jstring set \<Rightarrow> jstring set \<Rightarrow> jstring \<Rightarrow> jstring \<Rightarrow> bool" where
  "rewrites_block B T d d' =
     (\<exists>front b back x.
        b \<in> B \<and> d = front @ b @ back \<and> d' = front @ x @ back
        \<and> (\<forall>t \<in> T. \<forall>u w. d = u @ t @ w \<longrightarrow>
              (\<exists>y. front = u @ t @ y) \<or> (\<exists>z. u = front @ b @ z)))"

text \<open>The number of places of \<open>s\<close> at which \<open>t\<close> occurs.\<close>

fun occurrences :: "jstring \<Rightarrow> jstring \<Rightarrow> nat" where
  "occurrences t [] = (if t = [] then 1 else 0)"
| "occurrences t (c # cs) = (if starts_with (c # cs) t then 1 else 0) + occurrences t cs"

section \<open>Basic facts\<close>

lemmas site_simps = site_env_def site_state_def site_files_def site_engine_def

lemmas fs_simps = exists_sync_def read_file_sync_def readdir_sync_def

lemma default_locals_files: "files (snd (default_locals st locals)) = files st"
  by (simp add: default_locals_def split: option.splits)

lemma default_locals_trace: "trace (snd (default_locals st locals)) = trace st"
  by (simp add: default_locals_def split: option.splits)

lemma exists_default_locals: "exists_sync (snd (default_locals st locals)) p = exists_sync st p"
  by (simp add: exists_sync_def default_locals_files)

lemma read_exists: "read_file_sync st p = Inr src \<Longrightarrow> exists_sync st p"
  by (auto simp: read_file_sync_def exists_sync_def split: option.splits)

lemma heap_log [simp]: "heap (log ev st) = heap st"
  by (simp add: log_def)

lemma options_config [simp]: "o_config (options e) = config e"
  by (simp add: options_def Let_def)

lemma options_ext [simp]: "o_ext (options e) = js ''.slm''"
  by (simp add: options_def Let_def)

lemma merge_is_template_store:
  "set_field r (js ''include'') IncludeFn (object_assign r (o_config (options e)) st) =
   template_store e r st"
  by (simp add: set_field_def object_assign_def object_at_def template_store_def
      config_object_def)

text \<open>What \<^verbatim>\<open>compile.slm\<close> does with a file that it can read.\<close>

lemma compile_slm_readable:
  assumes "read_file_sync st file = Inr src"
  shows "compile_slm inc e st file (Some r) =
           (case slm_engine e src file (o_base_path (options e)) inc r (template_store e r st) of
              (Inl x, st3) \<Rightarrow> (JUndefined, log (LogError ''compile.slm'' x) st3)
            | (Inr data, st3) \<Rightarrow>
                if truthy (config_prop (options e) (js ''beautify'')) then
                  (case beautify e (JStr data) (config_prop (options e) (js ''beautify'')) of
                     Inl x \<Rightarrow> (JUndefined, log (LogError ''compile.slm'' x) st3)
                   | Inr pretty \<Rightarrow> (JStr pretty, st3))
                else (JStr data, st3))"
  using assms read_exists [OF assms]
  by (simp add: compile_slm_def default_locals_def Let_def
      merge_is_template_store [simplified])


section \<open>The compilers and a missing file\<close>

text \<open>
  C8.  When no file exists at the path, each of the three compilers of the \<^verbatim>\<open>compile\<close>
  table (\<^verbatim>\<open>slm\<close>, \<^verbatim>\<open>md\<close> and \<^verbatim>\<open>default\<close>) returns the empty string; nothing is thrown and
  nothing is logged.
\<close>

theorem missing_file_gives_empty_string:
  assumes "\<not> exists_sync st file"
  shows "compile_slm inc e st file locals = (JStr [], snd (default_locals st locals))
       \<and> compile_md inc e st file locals = (JStr [], snd (default_locals st locals))
       \<and> compile_default e st file locals = (JStr [], snd (default_locals st locals))
       \<and> trace (snd (default_locals st locals)) = trace st"
proof -
  obtain r st0 where d: "default_locals st locals = (r, st0)"
    by (cases "default_locals st locals")
  have "\<not> exists_sync st0 file"
    using assms exists_default_locals [of st locals "file"] d by simp
  then show ?thesis
    using d default_locals_trace [of st locals]
    by (simp add: compile_slm_def compile_md_def compile_default_def)
qed

theorem missing_file_gives_empty_string_witness:
  "\<not> exists_sync site_state (js ''/site/src/nothing.slm'')
   \<and> fst (compile_slm (include_js (Suc 0) site_env) site_env site_state
         (js ''/site/src/nothing.slm'') None) = JStr []
   \<and> fst (compile_md (include_js (Suc 0) site_env) site_env site_state
         (js ''/site/src/nothing.slm'') None) = JStr []
   \<and> fst (compile_default site_env site_state (js ''/site/src/nothing.slm'') (Some 0)) = JStr []"
proof -
  have h: "\<not> exists_sync site_state (js ''/site/src/nothing.slm'')"
    by code_simp
  show ?thesis
    using h missing_file_gives_empty_string [OF h] by simp
qed

section \<open>The locals of a template\<close>





text \<open>
  C4, as the claim states it, fails at the key \<^verbatim>\<open>include\<close>: with that key in the
  configuration and in the caller's locals, the template sees neither value but the
  include function, which is stored after the merge.
\<close>

theorem include_key_is_the_function:
  "map_of (config site_env) (js ''include'') = Some (JStr (js ''from config''))
   \<and> object_at site_state 0 (js ''include'') = Some (Data (JStr (js ''from locals'')))
   \<and> read_file_sync site_state (js ''/site/src/views/inc.slm'') = Inr (js ''include'')
   \<and> fst (compile_slm (include_js (Suc 0) site_env) site_env site_state
         (js ''/site/src/views/inc.slm'') (Some 0)) = JStr (js ''[Function: include]'')"
proof -
  have a: "map_of (config site_env) (js ''include'') = Some (JStr (js ''from config''))"
    by code_simp
  have b: "object_at site_state 0 (js ''include'') = Some (Data (JStr (js ''from locals'')))"
    by code_simp
  have c: "read_file_sync site_state (js ''/site/src/views/inc.slm'') = Inr (js ''include'')"
    by code_simp
  have d: "fst (compile_slm (include_js (Suc 0) site_env) site_env site_state
         (js ''/site/src/views/inc.slm'') (Some 0)) = JStr (js ''[Function: include]'')"
    by code_simp
  from a b c d show ?thesis by (intro conjI)
qed

text \<open>
  C4, amended.  For every configuration key other than \<^verbatim>\<open>include\<close>, the value that the
  template sees is the configuration's, whatever the caller's locals hold under that
  key: the template engine is run on a store in which the locals object maps the key to
  the configuration's value (and \<^verbatim>\<open>include\<close> to the include function).
\<close>

theorem configuration_wins_except_include:
  assumes "read_file_sync st file = Inr src"
    and "map_of (config e) k = Some v"
    and "k \<noteq> js ''include''"
  shows "\<exists>st2. st2 = template_store e r st
           \<and> object_at st2 r k = Some (Data v)
           \<and> object_at st2 r (js ''include'') = Some IncludeFn
           \<and> compile_slm inc e st file (Some r) =
               (case slm_engine e src file (o_base_path (options e)) inc r st2 of
                  (Inl x, st3) \<Rightarrow> (JUndefined, log (LogError ''compile.slm'' x) st3)
                | (Inr data, st3) \<Rightarrow>
                    if truthy (config_prop (options e) (js ''beautify'')) then
                      (case beautify e (JStr data) (config_prop (options e) (js ''beautify'')) of
                         Inl x \<Rightarrow> (JUndefined, log (LogError ''compile.slm'' x) st3)
                       | Inr pretty \<Rightarrow> (JStr pretty, st3))
                    else (JStr data, st3))"
proof -
  have m: "config_object e k = Some (Data v)"
    unfolding config_object_def
    using assms(2) by (induction "config e" arbitrary: e) (auto simp: map_of_map)
  have 1: "object_at (template_store e r st) r k = Some (Data v)"
    using assms(3) m by (simp add: template_store_def object_at_def)
  have 2: "object_at (template_store e r st) r (js ''include'') = Some IncludeFn"
    by (simp add: template_store_def object_at_def)
  from 1 2 compile_slm_readable [OF assms(1)] show ?thesis by blast
qed

theorem configuration_wins_except_include_witness:
  "read_file_sync site_state (js ''/site/src/views/home.slm'') = Inr (js ''title'')
   \<and> map_of (config site_env) (js ''title'') = Some (JStr (js ''Patterns''))
   \<and> object_at site_state 0 (js ''title'') = Some (Data (JStr (js ''Mine'')))
   \<and> js ''title'' \<noteq> js ''include''
   \<and> (\<exists>st2. object_at st2 0 (js ''title'') = Some (Data (JStr (js ''Patterns'')))
         \<and> fst (compile_slm (include_js (Suc 0) site_env) site_env site_state
               (js ''/site/src/views/home.slm'') (Some 0)) = JStr (js ''Patterns''))"
proof -
  have a: "read_file_sync site_state (js ''/site/src/views/home.slm'') = Inr (js ''title'')"
    by code_simp
  have b: "map_of (config site_env) (js ''title'') = Some (JStr (js ''Patterns''))"
    by code_simp
  have c: "js ''title'' \<noteq> js ''include''" by simp
  have d: "object_at site_state 0 (js ''title'') = Some (Data (JStr (js ''Mine'')))"
    by code_simp
  from configuration_wins_except_include [OF a b c, of 0 "include_js (Suc 0) site_env"]
  obtain st2 where s: "object_at st2 0 (js ''title'') = Some (Data (JStr (js ''Patterns'')))"
    by (elim exE conjE)
  have f: "fst (compile_slm (include_js (Suc 0) site_env) site_env site_state
               (js ''/site/src/views/home.slm'') (Some 0)) = JStr (js ''Patterns'')"
    by code_simp
  from s f have "\<exists>st2. object_at st2 0 (js ''title'') = Some (Data (JStr (js ''Patterns'')))
         \<and> fst (compile_slm (include_js (Suc 0) site_env) site_env site_state
               (js ''/site/src/views/home.slm'') (Some 0)) = JStr (js ''Patterns'')"
    by (intro exI conjI)
  with a b d c show ?thesis by (intro conjI)
qed

lemma site_options:
  "o_source (options site_env) = js ''/site/src''"
  "o_views (options site_env) = js ''/site/src/views''"
  "o_dist (options site_env) = js ''/site/dist''"
  "o_base_path (options site_env) = js ''/site/src''"
  by code_simp+

lemma starts_with_iff: "starts_with s p \<longleftrightarrow> (\<exists>w. s = p @ w)"
  unfolding starts_with_def
  by (metis append_eq_conv_conj append_take_drop_id)

text \<open>\<^verbatim>\<open>includes\<close> is containment anywhere in the string.\<close>

lemma js_includes_iff: "js_includes s p \<longleftrightarrow> (\<exists>u w. s = u @ p @ w)"
proof (induction s)
  case Nil
  then show ?case by simp
next
  case (Cons c cs)
  show ?case
  proof
    assume "js_includes (c # cs) p"
    then consider "starts_with (c # cs) p" | "js_includes cs p" by auto
    then show "\<exists>u w. c # cs = u @ p @ w"
    proof cases
      case 1
      then obtain w where "c # cs = p @ w" by (auto simp: starts_with_iff)
      then have "c # cs = [] @ p @ w" by simp
      then show ?thesis by blast
    next
      case 2
      then obtain u w where "cs = u @ p @ w" using Cons.IH by blast
      then have "c # cs = (c # u) @ p @ w" by simp
      then show ?thesis by blast
    qed
  next
    assume "\<exists>u w. c # cs = u @ p @ w"
    then obtain u w where uw: "c # cs = u @ p @ w" by blast
    show "js_includes (c # cs) p"
    proof (cases u)
      case Nil
      then have "starts_with (c # cs) p" using uw by (auto simp: starts_with_iff)
      then show ?thesis by simp
    next
      case (Cons a u')
      then have "cs = u' @ p @ w" using uw by simp
      then have "js_includes cs p" using Cons.IH by blast
      then show ?thesis by simp
    qed
  qed
qed

lemma extname_dot: "path_extname p \<noteq> [] \<Longrightarrow> \<exists>x. path_extname p = cu CHR ''.'' # x"
  by (auto simp: path_extname_def Let_def split: if_splits)

lemma js_replace_dot: "js_replace (cu CHR ''.'' # x) (js ''.'') [] = x"
  by (simp add: js_replace_def starts_with_def)

lemma handler_of_extname:
  "path_extname p \<noteq> [] \<Longrightarrow> js_replace (path_extname p) (js ''.'') [] = tl (path_extname p)"
  using extname_dot [of p] js_replace_dot by auto

lemma handler_of_ext: "js_replace (js ''.slm'') (js ''.'') [] = js ''slm''"
  by code_simp

section \<open>The include engine\<close>

text \<open>
  C5.  A reference without an extension resolves to the reference with \<^verbatim>\<open>.slm\<close> appended,
  joined under the source root, and is compiled by \<^verbatim>\<open>compile.slm\<close>.  A reference with an
  extension resolves as it is under the source root, and is compiled by the handler
  that the \<^verbatim>\<open>compile\<close> table has for the extension (\<^verbatim>\<open>compile.default\<close>, with a notice,
  when it has none).
\<close>

theorem include_resolves_reference:
  "(path_extname reference = [] \<longrightarrow>
      include_js (Suc n) e st reference locals =
        (case default_locals st locals of
           (r, st0) \<Rightarrow>
             returned (compile_slm (include_js n e) e st0
                         (path_join (o_source (options e)) (reference @ o_ext (options e)))
                         (Some r))))
   \<and> (path_extname reference \<noteq> [] \<longrightarrow>
      include_js (Suc n) e st reference locals =
        (case default_locals st locals of
           (r, st0) \<Rightarrow>
             let handler = tl (path_extname reference);
                 resolved = path_join (o_source (options e)) reference
             in if handler = js ''slm''
                  then returned (compile_slm (include_js n e) e st0 resolved (Some r))
                else if handler = js ''md''
                  then returned (compile_md (include_js n e) e st0 resolved (Some r))
                else if handler = js ''default''
                  then returned (compile_default e st0 resolved (Some r))
                else (case compile_default e st0 resolved (Some r) of
                        (data, st1) \<Rightarrow>
                          (Inr data, log (LogNotify (path_extname reference)) st1))))"
proof (intro conjI impI)
  assume x: "path_extname reference = []"
  show "include_js (Suc n) e st reference locals =
        (case default_locals st locals of
           (r, st0) \<Rightarrow>
             returned (compile_slm (include_js n e) e st0
                         (path_join (o_source (options e)) (reference @ o_ext (options e)))
                         (Some r)))"
    using x handler_of_ext by (simp add: Let_def split: prod.splits)
next
  assume x: "path_extname reference \<noteq> []"
  show "include_js (Suc n) e st reference locals =
        (case default_locals st locals of
           (r, st0) \<Rightarrow>
             let handler = tl (path_extname reference);
                 resolved = path_join (o_source (options e)) reference
             in if handler = js ''slm''
                  then returned (compile_slm (include_js n e) e st0 resolved (Some r))
                else if handler = js ''md''
                  then returned (compile_md (include_js n e) e st0 resolved (Some r))
                else if handler = js ''default''
                  then returned (compile_default e st0 resolved (Some r))
                else (case compile_default e st0 resolved (Some r) of
                        (data, st1) \<Rightarrow>
                          (Inr data, log (LogNotify (path_extname reference)) st1)))"
    using x handler_of_extname [OF x] by (simp add: Let_def split: prod.splits)
qed

theorem include_resolves_reference_witness:
  "path_extname (js ''views/home'') = []
   \<and> include_js (Suc 0) site_env site_state (js ''views/home'') (Some 0) =
       returned (compile_slm (include_js 0 site_env) site_env site_state
                   (js ''/site/src/views/home.slm'') (Some 0))
   \<and> path_extname (js ''partials/lead.html'') \<noteq> []
   \<and> fst (include_js (Suc 0) site_env site_state (js ''partials/lead.html'') (Some 0)) =
       Inr (JStr (js ''{{ this.title }}''))"
proof -
  have a: "path_extname (js ''views/home'') = []" by code_simp
  have b: "path_extname (js ''partials/lead.html'') \<noteq> []" by code_simp
  have b': "path_extname (js ''partials/lead.html'') = js ''.html''" by code_simp
  have j1: "path_join (js ''/site/src'') (js ''views/home'' @ js ''.slm'') =
              js ''/site/src/views/home.slm''"
    by code_simp
  have j2: "path_join (js ''/site/src'') (js ''partials/lead.html'') =
              js ''/site/src/partials/lead.html''"
    by code_simp
  have c: "compile_default site_env site_state (js ''/site/src/partials/lead.html'') (Some 0) =
             (JStr (js ''{{ this.title }}''), site_state)"
    by (simp add: compile_default_def default_locals_def fs_simps site_state_def site_files_def)
  have t1: "include_js (Suc 0) site_env site_state (js ''views/home'') (Some 0) =
        (case default_locals site_state (Some 0) of
           (r, st0) \<Rightarrow>
             returned (compile_slm (include_js 0 site_env) site_env st0
                         (path_join (o_source (options site_env))
                            (js ''views/home'' @ o_ext (options site_env)))
                         (Some r)))"
    by (rule mp [OF conjunct1 [OF include_resolves_reference] a])
  have t2: "include_js (Suc 0) site_env site_state (js ''partials/lead.html'') (Some 0) =
        (case default_locals site_state (Some 0) of
           (r, st0) \<Rightarrow>
             let handler = tl (path_extname (js ''partials/lead.html''));
                 resolved = path_join (o_source (options site_env)) (js ''partials/lead.html'')
             in if handler = js ''slm''
                  then returned (compile_slm (include_js 0 site_env) site_env st0 resolved (Some r))
                else if handler = js ''md''
                  then returned (compile_md (include_js 0 site_env) site_env st0 resolved (Some r))
                else if handler = js ''default''
                  then returned (compile_default site_env st0 resolved (Some r))
                else (case compile_default site_env st0 resolved (Some r) of
                        (data, st1) \<Rightarrow>
                          (Inr data, log (LogNotify (path_extname (js ''partials/lead.html''))) st1)))"
    by (rule mp [OF conjunct2 [OF include_resolves_reference] b])
  have 1: "include_js (Suc 0) site_env site_state (js ''views/home'') (Some 0) =
       returned (compile_slm (include_js 0 site_env) site_env site_state
                   (js ''/site/src/views/home.slm'') (Some 0))"
    unfolding t1 site_options options_ext j1 by (simp add: default_locals_def)
  have 2: "fst (include_js (Suc 0) site_env site_state (js ''partials/lead.html'') (Some 0)) =
       Inr (JStr (js ''{{ this.title }}''))"
    unfolding t2 site_options b' j2 using c by (simp add: default_locals_def)
  from a 1 b 2 show ?thesis by (intro conjI)
qed

section \<open>The include pass of markdown\<close>

text \<open>
  C9.  The include pass inserts the compiled fragment as the replacement argument of
  \<^verbatim>\<open>replace\<close>, so the fragment's \<^verbatim>\<open>$$\<close> and \<^verbatim>\<open>$&\<close> are read as replacement patterns.  For
  the fragment \<^verbatim>\<open>cost: $$5 ($&)\<close> the output differs from the literal substitution of
  the fragment for the directive.
\<close>

theorem include_pass_is_a_pattern_replace:
  "include_blocks (js ''<p>include{{ price.html }}</p>'') = [js ''include{{ price.html }}'']
   \<and> fst (include_js (Suc 0) site_env site_state
         (include_file (js ''include{{ price.html }}'')) None) =
       Inr (JStr (js ''cost: $$5 ($&)''))
   \<and> fst (mrkdwn_slm site_env (include_js (Suc 0) site_env) site_state
         (js ''<p>include{{ price.html }}</p>'')) =
       Inr (js ''<p>cost: $5 (include{{ price.html }})</p>'')
   \<and> literal_replace (js ''<p>include{{ price.html }}</p>'') (js ''include{{ price.html }}'')
         (js ''cost: $$5 ($&)'') = js ''<p>cost: $$5 ($&)</p>''
   \<and> fst (mrkdwn_slm site_env (include_js (Suc 0) site_env) site_state
         (js ''<p>include{{ price.html }}</p>'')) \<noteq>
       Inr (literal_replace (js ''<p>include{{ price.html }}</p>'')
              (js ''include{{ price.html }}'') (js ''cost: $$5 ($&)''))"
proof -
  have a: "include_blocks (js ''<p>include{{ price.html }}</p>'') =
             [js ''include{{ price.html }}'']"
    by code_simp
  have b: "fst (include_js (Suc 0) site_env site_state
         (include_file (js ''include{{ price.html }}'')) None) =
       Inr (JStr (js ''cost: $$5 ($&)''))"
    by code_simp
  have c: "fst (mrkdwn_slm site_env (include_js (Suc 0) site_env) site_state
         (js ''<p>include{{ price.html }}</p>'')) =
       Inr (js ''<p>cost: $5 (include{{ price.html }})</p>'')"
    by code_simp
  have d: "literal_replace (js ''<p>include{{ price.html }}</p>'')
         (js ''include{{ price.html }}'') (js ''cost: $$5 ($&)'') = js ''<p>cost: $$5 ($&)</p>''"
    by code_simp
  have f: "fst (mrkdwn_slm site_env (include_js (Suc 0) site_env) site_state
         (js ''<p>include{{ price.html }}</p>'')) \<noteq>
       Inr (literal_replace (js ''<p>include{{ price.html }}</p>'')
              (js ''include{{ price.html }}'') (js ''cost: $$5 ($&)''))"
    unfolding c d by simp
  from a b c d f show ?thesis by (intro conjI)
qed

section \<open>Which paths are templates\<close>

text \<open>
  C10.  \<^verbatim>\<open>walk\<close> and \<^verbatim>\<open>main\<close> take a path for a template file when the extension
  \<^verbatim>\<open>.slm\<close> occurs anywhere in it, not only at its end: \<^verbatim>\<open>walk\<close> hands such a path to
  \<^verbatim>\<open>main\<close>, and \<^verbatim>\<open>main\<close> compiles it with \<^verbatim>\<open>compile.slm\<close> and writes the result.  For
  \<^verbatim>\<open>walk\<close> the path is the one it has after joining the entry under its directory.
\<close>

theorem template_by_containment:
  assumes "dir1 = (case dir of None \<Rightarrow> o_views (options e)
                   | Some d \<Rightarrow> if d = [] then o_views (options e) else d)"
    and "file1 = (if js_includes file dir1 then file else path_join dir1 file)"
    and "file1 = u @ o_ext (options e) @ w"
  shows "walk (Suc n) e st file dir = Some (snd (main n e st file1))
       \<and> main n e st file1 =
           (case compile_slm (include_js n e) e st file1 None of
              (compiled, st1) \<Rightarrow>
                (case write_js e st1 file1 compiled of
                   (dist, st2) \<Rightarrow>
                     (dist, if \<not> nopa11y e then log (Audit dist) st2 else st2)))"
proof -
  have inc: "js_includes file1 (o_ext (options e))"
    using assms(3) js_includes_iff by blast
  have "walk (Suc n) e st file dir = Some (snd (main n e st file1))"
    by (simp only: walk.simps Let_def assms(1)[symmetric] assms(2)[symmetric] inc if_True)
  moreover have "main n e st file1 =
           (case compile_slm (include_js n e) e st file1 None of
              (compiled, st1) \<Rightarrow>
                (case write_js e st1 file1 compiled of
                   (dist, st2) \<Rightarrow>
                     (dist, if \<not> nopa11y e then log (Audit dist) st2 else st2)))"
    by (simp only: main_def inc if_True)
  ultimately show ?thesis by blast
qed

theorem template_by_containment_witness:
  "js ''/site/src/views/notes.slm.bak'' =
     js ''/site/src/views/notes'' @ o_ext (options site_env) @ js ''.bak''
   \<and> walk (Suc 0) site_env site_state (js ''notes.slm.bak'') None =
       Some (snd (main 0 site_env site_state (js ''/site/src/views/notes.slm.bak'')))
   \<and> files (snd (main 0 site_env site_state (js ''/site/src/views/notes.slm.bak'')))
       (js ''/site/dist/notes.html.bak'') = Some (File (js ''Patterns''))"
proof -
  have h1: "js ''/site/src/views'' =
      (case None of None \<Rightarrow> o_views (options site_env)
       | Some d \<Rightarrow> if d = [] then o_views (options site_env) else d)"
    by (simp add: site_options)
  have h2: "js ''/site/src/views/notes.slm.bak'' =
      (if js_includes (js ''notes.slm.bak'') (js ''/site/src/views'') then js ''notes.slm.bak''
       else path_join (js ''/site/src/views'') (js ''notes.slm.bak''))"
    by code_simp
  have h3: "js ''/site/src/views/notes.slm.bak'' =
      js ''/site/src/views/notes'' @ o_ext (options site_env) @ js ''.bak''"
    by simp
  have w: "files (snd (main 0 site_env site_state (js ''/site/src/views/notes.slm.bak'')))
       (js ''/site/dist/notes.html.bak'') = Some (File (js ''Patterns''))"
    by code_simp
  from template_by_containment [OF h1 h2 h3, of 0 site_state] h3 w show ?thesis by blast
qed

section \<open>The change router\<close>

text \<open>The last component of a path is a part of it.\<close>

lemma basename_occurs: "\<exists>u w. p = u @ path_basename p @ w"
proof -
  let ?b = "dropWhile is_slash (rev p)"
  have 1: "takeWhile is_slash (rev p) @ takeWhile not_slash ?b @ dropWhile not_slash ?b = rev p"
    by simp
  have "p = rev (rev p)" by simp
  also have "\<dots> =
      rev (takeWhile is_slash (rev p) @ takeWhile not_slash ?b @ dropWhile not_slash ?b)"
    by (simp only: 1)
  also have "\<dots> =
      rev (dropWhile not_slash ?b) @ rev (takeWhile not_slash ?b) @ rev (takeWhile is_slash (rev p))"
    by (simp only: rev_append append_assoc)
  finally have "p = rev (dropWhile not_slash ?b) @ path_basename p @ rev (takeWhile is_slash (rev p))"
    by (simp only: path_basename_def)
  then show ?thesis by blast
qed

lemma takeWhile_all: "\<forall>c \<in> set xs. P c \<Longrightarrow> takeWhile P xs = xs"
  by (induction xs) auto

lemma basename_ext_strips:
  assumes "b \<noteq> []" and "cu CHR ''/'' \<notin> set b" and "x \<noteq> []" and "cu CHR ''/'' \<notin> set x"
  shows "path_basename_ext (b @ x) x = b"
proof -
  have ns: "\<forall>c \<in> set (rev (b @ x)). not_slash c"
    using assms(2,4) by (auto simp: not_slash_def)
  obtain c cs where r: "rev (b @ x) = c # cs"
    using assms(1) by (cases "rev (b @ x)") auto
  then have "not_slash c" using ns by (metis list.set_intros(1))
  then have d: "dropWhile is_slash (rev (b @ x)) = rev (b @ x)"
    unfolding r by (simp add: is_slash_def not_slash_def)
  have t: "takeWhile not_slash (rev (b @ x)) = rev (b @ x)"
    using ns by (rule takeWhile_all)
  have neq: "x \<noteq> b @ x" using assms(1) by simp
  have len: "\<not> length (b @ x) < length x" by simp
  have sw: "starts_with (rev x @ rev b) (rev x)" by (simp add: starts_with_def)
  have ne2: "rev x @ rev b \<noteq> rev x" using assms(1) by simp
  show ?thesis
    unfolding path_basename_ext_def Let_def d t
    using assms(3) neq len sw ne2 by simp
qed

text \<open>
  C2, amended.  The change handler takes a view to own the changed path exactly when
  the directory path of the changed file contains the view's base name (extension
  stripped) somewhere, and does not contain the path of the views directory anywhere.
  When some view owns the changed path, the compile target is the file of the views
  directory named after the last directory of the changed path, with the extension
  added.  That is the owner's own file when this last directory is named as the view
  (a name ending in the extension) and the changed file does not lie under the views
  directory.
\<close>

theorem change_router_ownership:
  "(view_owns (options e) dir changed view \<longleftrightarrow>
      (\<exists>u w. path_dirname changed = u @ path_basename_ext view (o_ext (options e)) @ w)
      \<and> \<not> (\<exists>u w. path_dirname changed = u @ dir @ w))
   \<and> (has_view (options e) views dir changed \<longleftrightarrow>
        (\<exists>view \<in> set views. view_owns (options e) dir changed view))
   \<and> (development e \<and> has_view (options e) views dir changed \<longrightarrow>
        on_change n e views dir st changed =
          Some (snd (main n e (log (LogWatching changed) st)
                  (path_join dir (path_basename (path_dirname changed) @ o_ext (options e))))))
   \<and> (view = b @ o_ext (options e) \<and> b \<noteq> [] \<and> cu CHR ''/'' \<notin> set b
        \<and> path_basename (path_dirname changed) = b
        \<and> \<not> (\<exists>u w. path_dirname changed = u @ dir @ w) \<longrightarrow>
        view_owns (options e) dir changed view
        \<and> path_join dir (path_basename (path_dirname changed) @ o_ext (options e)) =
            path_join dir view)"
proof (intro conjI)
  show own: "view_owns (options e) dir changed view \<longleftrightarrow>
      (\<exists>u w. path_dirname changed = u @ path_basename_ext view (o_ext (options e)) @ w)
      \<and> \<not> (\<exists>u w. path_dirname changed = u @ dir @ w)"
    by (simp only: view_owns_def Let_def js_includes_iff)
  show "has_view (options e) views dir changed \<longleftrightarrow>
        (\<exists>view \<in> set views. view_owns (options e) dir changed view)"
    by (simp add: has_view_def list_ex_iff)
  show "development e \<and> has_view (options e) views dir changed \<longrightarrow>
        on_change n e views dir st changed =
          Some (snd (main n e (log (LogWatching changed) st)
                  (path_join dir (path_basename (path_dirname changed) @ o_ext (options e)))))"
    by (simp add: on_change_def Let_def)
  show "view = b @ o_ext (options e) \<and> b \<noteq> [] \<and> cu CHR ''/'' \<notin> set b
        \<and> path_basename (path_dirname changed) = b
        \<and> \<not> (\<exists>u w. path_dirname changed = u @ dir @ w) \<longrightarrow>
        view_owns (options e) dir changed view
        \<and> path_join dir (path_basename (path_dirname changed) @ o_ext (options e)) =
            path_join dir view"
  proof (intro impI)
    assume h: "view = b @ o_ext (options e) \<and> b \<noteq> [] \<and> cu CHR ''/'' \<notin> set b
        \<and> path_basename (path_dirname changed) = b
        \<and> \<not> (\<exists>u w. path_dirname changed = u @ dir @ w)"
    then have "path_basename_ext view (o_ext (options e)) = b"
      using basename_ext_strips [of b "(js ''.slm'')"] by simp
    moreover have "\<exists>u w. path_dirname changed = u @ b @ w"
      using h basename_occurs [of "path_dirname changed"] by simp
    ultimately have "view_owns (options e) dir changed view"
      using h by (simp only: view_owns_def Let_def js_includes_iff) blast
    then show "view_owns (options e) dir changed view
        \<and> path_join dir (path_basename (path_dirname changed) @ o_ext (options e)) =
            path_join dir view"
      using h by simp
  qed
qed

text \<open>
  C2, as the claim states it, fails in both directions.  For the view \<^verbatim>\<open>home.slm\<close> and a
  changed file in \<^verbatim>\<open>views/home\<close>, the directory is named as the view and is not the views
  directory, yet the view does not own the file, because the directory lies under the
  views directory.  For a changed file in \<^verbatim>\<open>elements/homepage\<close> the directory is not named
  as the view, yet the view owns it, because \<^verbatim>\<open>home\<close> occurs in the directory path; the
  compile target is then \<^verbatim>\<open>views/homepage.slm\<close>, which is not the owner's file.
\<close>

theorem owner_is_not_decided_by_directory_name:
  "path_basename (path_dirname (js ''/site/src/views/home/hero.slm'')) =
     path_basename_ext (js ''home.slm'') (js ''.slm'')
   \<and> path_dirname (js ''/site/src/views/home/hero.slm'') \<noteq> (js ''/site/src/views'')
   \<and> \<not> view_owns (options site_env) (js ''/site/src/views'') (js ''/site/src/views/home/hero.slm'')
         (js ''home.slm'')
   \<and> path_basename (path_dirname (js ''/site/src/elements/homepage/hero.slm'')) \<noteq>
       path_basename_ext (js ''home.slm'') (js ''.slm'')
   \<and> view_owns (options site_env) (js ''/site/src/views'') (js ''/site/src/elements/homepage/hero.slm'')
         (js ''home.slm'')
   \<and> map_option trace (on_change 0 site_env [(js ''home.slm'')] (js ''/site/src/views'') site_state
         (js ''/site/src/elements/homepage/hero.slm'')) =
       Some [LogWatching (js ''/site/src/elements/homepage/hero.slm''),
             LogDescribe (js ''/site/src/views/homepage.slm'') (js ''/site/dist/homepage.html'')]"
proof -
  have a: "path_basename (path_dirname (js ''/site/src/views/home/hero.slm'')) =
     path_basename_ext (js ''home.slm'') (js ''.slm'')"
    by code_simp
  have b: "path_dirname (js ''/site/src/views/home/hero.slm'') \<noteq> (js ''/site/src/views'')"
    by code_simp
  have c: "\<not> view_owns (options site_env) (js ''/site/src/views'')
             (js ''/site/src/views/home/hero.slm'') (js ''home.slm'')"
    by code_simp
  have d: "path_basename (path_dirname (js ''/site/src/elements/homepage/hero.slm'')) \<noteq>
       path_basename_ext (js ''home.slm'') (js ''.slm'')"
    by code_simp
  have f: "view_owns (options site_env) (js ''/site/src/views'')
             (js ''/site/src/elements/homepage/hero.slm'') (js ''home.slm'')"
    by code_simp
  have g: "map_option trace (on_change 0 site_env [(js ''home.slm'')] (js ''/site/src/views'') site_state
         (js ''/site/src/elements/homepage/hero.slm'')) =
       Some [LogWatching (js ''/site/src/elements/homepage/hero.slm''),
             LogDescribe (js ''/site/src/views/homepage.slm'') (js ''/site/dist/homepage.html'')]"
    by code_simp
  from a b c d f g show ?thesis by (intro conjI)
qed

theorem change_router_ownership_witness:
  "development site_env
   \<and> view_set site_env site_state = Inr [(js ''home.slm''), (js ''inc.slm''), (js ''notes.slm.bak''), (js ''press.slm'')]
   \<and> (js ''home.slm'') = (js ''home'') @ o_ext (options site_env)
   \<and> path_basename (path_dirname (js ''/site/src/home/hero.slm'')) = (js ''home'')
   \<and> \<not> (\<exists>u w. path_dirname (js ''/site/src/home/hero.slm'') = u @ (js ''/site/src/views'') @ w)
   \<and> view_owns (options site_env) (js ''/site/src/views'') (js ''/site/src/home/hero.slm'') (js ''home.slm'')
   \<and> has_view (options site_env) [(js ''home.slm''), (js ''inc.slm''), (js ''notes.slm.bak''), (js ''press.slm'')] (js ''/site/src/views'') (js ''/site/src/home/hero.slm'')
   \<and> on_change 0 site_env [(js ''home.slm''), (js ''inc.slm''), (js ''notes.slm.bak''), (js ''press.slm'')] (js ''/site/src/views'') site_state
         (js ''/site/src/home/hero.slm'') =
       Some (snd (main 0 site_env (log (LogWatching (js ''/site/src/home/hero.slm'')) site_state)
                    (js ''/site/src/views/home.slm'')))
   \<and> map_option (\<lambda>s. files s (js ''/site/dist/home.html''))
         (on_change 0 site_env [(js ''home.slm''), (js ''inc.slm''), (js ''notes.slm.bak''), (js ''press.slm'')] (js ''/site/src/views'') site_state
            (js ''/site/src/home/hero.slm'')) = Some (Some (File (js ''Patterns'')))"
proof -
  note inst = change_router_ownership
    [of site_env "(js ''/site/src/views'')" "(js ''/site/src/home/hero.slm'')" "(js ''home.slm'')"
        "[(js ''home.slm''), (js ''inc.slm''), (js ''notes.slm.bak''), (js ''press.slm'')]" 0 site_state "(js ''home'')"]
  have dev: "development site_env" by (simp add: site_env_def)
  have vs: "view_set site_env site_state = Inr [(js ''home.slm''), (js ''inc.slm''), (js ''notes.slm.bak''), (js ''press.slm'')]"
    by code_simp
  have v: "(js ''home.slm'') = (js ''home'') @ o_ext (options site_env)" by simp
  have bn: "path_basename (path_dirname (js ''/site/src/home/hero.slm'')) = (js ''home'')"
    by code_simp
  have out: "\<not> (\<exists>u w. path_dirname (js ''/site/src/home/hero.slm'') = u @ (js ''/site/src/views'') @ w)"
    unfolding js_includes_iff [symmetric] by code_simp
  have ne: "(js ''home'') \<noteq> []" and sl: "cu CHR ''/'' \<notin> set (js ''home'')" by simp_all
  have 4: "view_owns (options site_env) (js ''/site/src/views'') (js ''/site/src/home/hero.slm'') (js ''home.slm'')
        \<and> path_join (js ''/site/src/views'')
            (path_basename (path_dirname (js ''/site/src/home/hero.slm'')) @ o_ext (options site_env)) =
            path_join (js ''/site/src/views'') (js ''home.slm'')"
    by (rule mp [OF conjunct2 [OF conjunct2 [OF conjunct2 [OF inst]]]]) (intro conjI v ne sl bn out)
  then have own: "view_owns (options site_env) (js ''/site/src/views'') (js ''/site/src/home/hero.slm'')
      (js ''home.slm'')" ..
  have hv: "has_view (options site_env) [(js ''home.slm''), (js ''inc.slm''), (js ''notes.slm.bak''), (js ''press.slm'')] (js ''/site/src/views'')
      (js ''/site/src/home/hero.slm'')"
    using conjunct1 [OF conjunct2 [OF inst]] own by simp
  have j: "path_join (js ''/site/src/views'') (js ''home.slm'') = (js ''/site/src/views/home.slm'')"
    by code_simp
  have oc: "on_change 0 site_env [(js ''home.slm''), (js ''inc.slm''), (js ''notes.slm.bak''), (js ''press.slm'')] (js ''/site/src/views'') site_state
         (js ''/site/src/home/hero.slm'') =
       Some (snd (main 0 site_env (log (LogWatching (js ''/site/src/home/hero.slm'')) site_state)
                    (js ''/site/src/views/home.slm'')))"
    using mp [OF conjunct1 [OF conjunct2 [OF conjunct2 [OF inst]]], OF conjI [OF dev hv]]
    unfolding conjunct2 [OF 4] j .
  have w: "map_option (\<lambda>s. files s (js ''/site/dist/home.html''))
         (on_change 0 site_env [(js ''home.slm''), (js ''inc.slm''), (js ''notes.slm.bak''), (js ''press.slm'')] (js ''/site/src/views'') site_state
            (js ''/site/src/home/hero.slm'')) = Some (Some (File (js ''Patterns'')))"
    by code_simp
  from dev vs v bn out own hv oc w show ?thesis by (intro conjI)
qed

section \<open>Paths into the configuration\<close>

lemma descend_append:
  "descend e obj (ks @ ms) =
     (case descend e obj ks of Inl x \<Rightarrow> Inl x | Inr v \<Rightarrow> descend e v ms)"
  by (induction ks arbitrary: obj) (auto split: sum.splits)

lemma descend_undefined_intermediate:
  "descend e obj ks = Inr JUndefined \<Longrightarrow> descend e obj (ks @ k # rest) = Inl TypeError"
  by (simp add: descend_append)

text \<open>One block whose path cannot be followed makes the whole variable pass throw.\<close>

lemma vars_each_throws:
  "element \<in> set blocks \<Longrightarrow> js_includes element (js ''this.'') \<Longrightarrow>
   descend e (JObj (o_config (options e))) (variable element) = Inl y \<Longrightarrow>
   \<exists>x. vars_each e data blocks = Inl x"
proof (induction blocks arbitrary: data)
  case Nil
  then show ?case by simp
next
  case (Cons b blocks)
  show ?case
  proof (cases "js_includes b (js ''this.'')")
    case False
    then have "element \<noteq> b" using Cons.prems(2) by auto
    then have "element \<in> set blocks" using Cons.prems(1) by simp
    then have "\<exists>x. vars_each e data blocks = Inl x"
      using Cons.IH Cons.prems(2,3) by blast
    then show ?thesis using False by simp
  next
    case True
    show ?thesis
    proof (cases "descend e (JObj (o_config (options e))) (variable b)")
      case (Inl x)
      then show ?thesis using True by simp
    next
      case (Inr v)
      then have ne: "element \<noteq> b" using Cons.prems(3) by auto
      show ?thesis
      proof (cases "replace_value e data b v")
        case (Inl x)
        then show ?thesis using True Inr by simp
      next
        case inr: (Inr data')
        have "element \<in> set blocks" using ne Cons.prems(1) by simp
        then have "\<exists>x. vars_each e data' blocks = Inl x"
          using Cons.IH Cons.prems(2,3) by blast
        then show ?thesis using True Inr inr by simp
      qed
    qed
  qed
qed

text \<open>A replacement without a dollar sign is inserted as it is.\<close>

lemma substitution_plain:
  "cu CHR ''$'' \<notin> set r \<Longrightarrow> substitution matched front back r = r"
  by (induction matched front "back" r rule: substitution.induct) auto

lemma replace_value_string:
  "split_first [] data element = Some (front, back) \<Longrightarrow> cu CHR ''$'' \<notin> set fragment \<Longrightarrow>
   replace_value e data element (JStr fragment) = Inr (front @ fragment @ back)"
  by (simp add: replace_value_def js_replace_def substitution_plain)

section \<open>The two passes of \<^verbatim>\<open>compile.md\<close>\<close>

text \<open>
  C6.  \<^verbatim>\<open>compile.md\<close> runs the include pass to its end and gives its whole output to the
  variable pass.  On a readable file whose markdown renders, what \<^verbatim>\<open>compile.md\<close> returns
  is decided by the include pass on the rendered text, which always ends: when it throws,
  the error is logged and \<^verbatim>\<open>undefined\<close> returned; when it ends with a text, \<^verbatim>\<open>compile.md\<close>
  returns the variable pass applied to that text.  In particular, when the rendered text
  has one include directive and the included file compiles to a fragment without a
  dollar sign, the variable pass runs on the text that has the fragment in the place of
  the directive.  So a \<^verbatim>\<open>{{ this.* }}\<close> block that came in with an included fragment is
  resolved against the configuration in the same compile.
\<close>

theorem compile_md_runs_includes_then_variables:
  "(read_file_sync st file = Inr md
      \<and> marked e (config_prop (options e) (js ''marked'')) md = Inr html \<longrightarrow>
      compile_md inc e st file (Some r) =
        (case mrkdwn_slm e inc st html of
           (Inl x, st1) \<Rightarrow> (JUndefined, log (LogError ''compile.md'' x) st1)
         | (Inr included, st1) \<Rightarrow>
             (case mrkdwn_vars e included of
                Inl x \<Rightarrow> (JUndefined, log (LogError ''compile.md'' x) st1)
              | Inr out \<Rightarrow> (JStr out, st1))))
   \<and> (read_file_sync st file = Inr md
      \<and> marked e (config_prop (options e) (js ''marked'')) md = Inr html
      \<and> include_blocks html = [directive]
      \<and> split_first [] html directive = Some (front, back)
      \<and> inc st (include_file directive) None = (Inr (JStr fragment), st1)
      \<and> cu CHR ''$'' \<notin> set fragment \<longrightarrow>
      compile_md inc e st file (Some r) =
        (case mrkdwn_vars e (front @ fragment @ back) of
           Inl x \<Rightarrow> (JUndefined, log (LogError ''compile.md'' x) st1)
         | Inr out \<Rightarrow> (JStr out, st1)))"
proof (intro conjI impI)
  assume h: "read_file_sync st file = Inr md
      \<and> marked e (config_prop (options e) (js ''marked'')) md = Inr html"
  then show "compile_md inc e st file (Some r) =
        (case mrkdwn_slm e inc st html of
           (Inl x, st1) \<Rightarrow> (JUndefined, log (LogError ''compile.md'' x) st1)
         | (Inr included, st1) \<Rightarrow>
             (case mrkdwn_vars e included of
                Inl x \<Rightarrow> (JUndefined, log (LogError ''compile.md'' x) st1)
              | Inr out \<Rightarrow> (JStr out, st1)))"
    using read_exists [of st "file" md]
    by (simp add: compile_md_def default_locals_def)
next
  assume h: "read_file_sync st file = Inr md
      \<and> marked e (config_prop (options e) (js ''marked'')) md = Inr html
      \<and> include_blocks html = [directive]
      \<and> split_first [] html directive = Some (front, back)
      \<and> inc st (include_file directive) None = (Inr (JStr fragment), st1)
      \<and> cu CHR ''$'' \<notin> set fragment"
  then have "replace_value e html directive (JStr fragment) = Inr (front @ fragment @ back)"
    by (intro replace_value_string) simp_all
  then have "mrkdwn_slm e inc st html = (Inr (front @ fragment @ back), st1)"
    using h by (simp add: mrkdwn_slm_def)
  then show "compile_md inc e st file (Some r) =
        (case mrkdwn_vars e (front @ fragment @ back) of
           Inl x \<Rightarrow> (JUndefined, log (LogError ''compile.md'' x) st1)
         | Inr out \<Rightarrow> (JStr out, st1))"
    using h read_exists [of st "file" md]
    by (simp add: compile_md_def default_locals_def)
qed

lemma fst_eq_pair: "fst p = a \<Longrightarrow> \<exists>b. p = (a, b)"
  by (cases p) auto

theorem compile_md_runs_includes_then_variables_witness:
  "read_file_sync site_state (js ''/site/src/intro.md'') =
     Inr (js ''<h1>include{{ partials/lead.html }}</h1>'')
   \<and> marked site_env (config_prop (options site_env) (js ''marked''))
         (js ''<h1>include{{ partials/lead.html }}</h1>'') =
       Inr (js ''<h1>include{{ partials/lead.html }}</h1>'')
   \<and> include_blocks (js ''<h1>include{{ partials/lead.html }}</h1>'') =
       [js ''include{{ partials/lead.html }}'']
   \<and> split_first [] (js ''<h1>include{{ partials/lead.html }}</h1>'')
         (js ''include{{ partials/lead.html }}'') = Some (js ''<h1>'', js ''</h1>'')
   \<and> fst (include_js (Suc 0) site_env site_state
         (include_file (js ''include{{ partials/lead.html }}'')) None) =
       Inr (JStr (js ''{{ this.title }}''))
   \<and> cu CHR ''$'' \<notin> set (js ''{{ this.title }}'')
   \<and> mrkdwn_vars site_env (js ''<h1>'' @ js ''{{ this.title }}'' @ js ''</h1>'') =
       Inr (js ''<h1>Patterns</h1>'')
   \<and> fst (compile_md (include_js (Suc 0) site_env) site_env site_state
         (js ''/site/src/intro.md'') (Some 0)) = JStr (js ''<h1>Patterns</h1>'')
   \<and> fst (compile_md (include_js (Suc (Suc 0)) site_env) site_env site_state
         (js ''/site/src/loop.md'') (Some 0)) = JStr (js ''<p><p>undefined</p></p>'')"
proof -
  have a: "read_file_sync site_state (js ''/site/src/intro.md'') =
             Inr (js ''<h1>include{{ partials/lead.html }}</h1>'')"
    by code_simp
  have b: "marked site_env (config_prop (options site_env) (js ''marked''))
             (js ''<h1>include{{ partials/lead.html }}</h1>'') =
           Inr (js ''<h1>include{{ partials/lead.html }}</h1>'')"
    by (simp add: site_env_def)
  have c: "include_blocks (js ''<h1>include{{ partials/lead.html }}</h1>'') =
       [js ''include{{ partials/lead.html }}'']"
    by code_simp
  have d: "split_first [] (js ''<h1>include{{ partials/lead.html }}</h1>'')
         (js ''include{{ partials/lead.html }}'') = Some (js ''<h1>'', js ''</h1>'')"
    by code_simp
  have f: "fst (include_js (Suc 0) site_env site_state
         (include_file (js ''include{{ partials/lead.html }}'')) None) =
       Inr (JStr (js ''{{ this.title }}''))"
    by code_simp
  from fst_eq_pair [OF f]
  obtain st1 where g: "include_js (Suc 0) site_env site_state
         (include_file (js ''include{{ partials/lead.html }}'')) None =
       (Inr (JStr (js ''{{ this.title }}'')), st1)" ..
  have h: "cu CHR ''$'' \<notin> set (js ''{{ this.title }}'')" by simp
  have v: "mrkdwn_vars site_env (js ''<h1>'' @ js ''{{ this.title }}'' @ js ''</h1>'') =
       Inr (js ''<h1>Patterns</h1>'')"
    by code_simp
  have 1: "compile_md (include_js (Suc 0) site_env) site_env site_state
         (js ''/site/src/intro.md'') (Some 0) =
        (case mrkdwn_vars site_env (js ''<h1>'' @ js ''{{ this.title }}'' @ js ''</h1>'') of
           Inl x \<Rightarrow> (JUndefined, log (LogError ''compile.md'' x) st1)
         | Inr out \<Rightarrow> (JStr out, st1))"
    by (rule mp [OF conjunct2 [OF compile_md_runs_includes_then_variables
                                    [where inc = "include_js (Suc 0) site_env"
                                       and e = site_env and st = site_state]]
                 conjI [OF a conjI [OF b conjI [OF c conjI [OF d conjI [OF g h]]]]]])
  have 2: "fst (compile_md (include_js (Suc 0) site_env) site_env site_state
         (js ''/site/src/intro.md'') (Some 0)) = JStr (js ''<h1>Patterns</h1>'')"
    unfolding 1 v by simp
  have 3: "fst (compile_md (include_js (Suc (Suc 0)) site_env) site_env site_state
         (js ''/site/src/loop.md'') (Some 0)) = JStr (js ''<p><p>undefined</p></p>'')"
    by code_simp
  from a b c d f h v 2 3 show ?thesis by (intro conjI)
qed

text \<open>\<^verbatim>\<open>walk\<close> on the entries of a directory that are all templates.\<close>

lemma for_each_templates:
  assumes "\<forall>name \<in> set names.
             js_includes (if js_includes name d then name else path_join d name) (js ''.slm'')"
    and "d \<noteq> []"
  shows "for_each (\<lambda>s name. walk (Suc n) e s name (Some d)) names st =
         Some (foldl (\<lambda>s name. snd (main n e s
                        (if js_includes name d then name else path_join d name))) st names)"
  using assms(1)
proof (induction names arbitrary: st)
  case Nil
  then show ?case by simp
next
  case (Cons name names)
  have "walk (Suc n) e st name (Some d) =
          Some (snd (main n e st (if js_includes name d then name else path_join d name)))"
    using Cons.prems assms(2) by (simp add: Let_def)
  then show ?case using Cons by simp
qed

text \<open>
  C7.  When, after the include pass, a \<^verbatim>\<open>this.\<close> block of the document has a path of
  which a proper prefix leads to \<^verbatim>\<open>undefined\<close>, the next key is read from \<^verbatim>\<open>undefined\<close>
  and throws.  \<^verbatim>\<open>compile.md\<close> catches the error: it logs an error and returns
  \<^verbatim>\<open>undefined\<close>, which is an ordinary return; it does the same when the include pass
  throws.  A batch goes on after such a file: \<^verbatim>\<open>walk\<close> on the views directory, all of
  whose entries are templates, runs \<^verbatim>\<open>main\<close> on every entry in turn, whatever the
  compile of another entry has logged.
\<close>

theorem undefined_intermediate_is_soft_failure:
  "(read_file_sync st file = Inr md
      \<and> marked e (config_prop (options e) (js ''marked'')) md = Inr html
      \<and> mrkdwn_slm e inc st html = (Inr included, st1)
      \<and> element \<in> set (var_blocks included)
      \<and> js_includes element (js ''this.'')
      \<and> variable element = ks @ k # rest
      \<and> descend e (JObj (config e)) ks = Inr JUndefined
    \<longrightarrow> (\<exists>x. compile_md inc e st file (Some r) =
               (JUndefined, log (LogError ''compile.md'' x) st1)))
   \<and> (read_file_sync st file = Inr md
      \<and> marked e (config_prop (options e) (js ''marked'')) md = Inr html
      \<and> mrkdwn_slm e inc st html = (Inl x, st1)
    \<longrightarrow> compile_md inc e st file (Some r) =
          (JUndefined, log (LogError ''compile.md'' x) st1))
   \<and> (readdir_sync st (o_views (options e)) = Inr names
      \<and> o_views (options e) \<noteq> []
      \<and> \<not> js_includes (o_views (options e)) (o_ext (options e))
      \<and> (\<forall>name \<in> set names.
            js_includes (if js_includes name (o_views (options e)) then name
                         else path_join (o_views (options e)) name) (o_ext (options e)))
    \<longrightarrow> walk (Suc (Suc n)) e st (o_views (options e)) None =
          Some (foldl (\<lambda>s name. snd (main n e s
                         (if js_includes name (o_views (options e)) then name
                          else path_join (o_views (options e)) name))) st (rev names)))"
proof (intro conjI impI)
  assume h: "read_file_sync st file = Inr md
      \<and> marked e (config_prop (options e) (js ''marked'')) md = Inr html
      \<and> mrkdwn_slm e inc st html = (Inr included, st1)
      \<and> element \<in> set (var_blocks included)
      \<and> js_includes element (js ''this.'')
      \<and> variable element = ks @ k # rest
      \<and> descend e (JObj (config e)) ks = Inr JUndefined"
  then have "descend e (JObj (o_config (options e))) (variable element) = Inl TypeError"
    by (simp add: descend_undefined_intermediate)
  then have "\<exists>x. vars_each e included (var_blocks included) = Inl x"
    using h by (intro vars_each_throws) auto
  then obtain x where "mrkdwn_vars e included = Inl x"
    unfolding mrkdwn_vars_def by blast
  then have "compile_md inc e st file (Some r) =
               (JUndefined, log (LogError ''compile.md'' x) st1)"
    using h read_exists [of st "file" md]
    by (simp add: compile_md_def default_locals_def)
  then show "\<exists>x. compile_md inc e st file (Some r) =
               (JUndefined, log (LogError ''compile.md'' x) st1)" ..
next
  assume "read_file_sync st file = Inr md
      \<and> marked e (config_prop (options e) (js ''marked'')) md = Inr html
      \<and> mrkdwn_slm e inc st html = (Inl x, st1)"
  then show "compile_md inc e st file (Some r) =
          (JUndefined, log (LogError ''compile.md'' x) st1)"
    using read_exists [of st "file" md]
    by (simp add: compile_md_def default_locals_def)
next
  let ?d = "o_views (options e)"
  assume h: "readdir_sync st ?d = Inr names
      \<and> ?d \<noteq> []
      \<and> \<not> js_includes ?d (o_ext (options e))
      \<and> (\<forall>name \<in> set names.
            js_includes (if js_includes name ?d then name else path_join ?d name)
              (o_ext (options e)))"
  have self: "js_includes ?d ?d"
    using js_includes_iff [of ?d ?d] by (metis append_Nil append_Nil2)
  have all: "\<forall>name \<in> set (rev names).
             js_includes (if js_includes name ?d then name else path_join ?d name) (js ''.slm'')"
    using h by simp
  have ne: "?d \<noteq> []" using h by simp
  have "walk (Suc (Suc n)) e st ?d None =
          for_each (\<lambda>s name. walk (Suc n) e s name (Some ?d)) (rev names) st"
    by (subst walk.simps(2)) (use h self in \<open>simp add: Let_def del: walk.simps\<close>)
  also have "\<dots> = Some (foldl (\<lambda>s name. snd (main n e s
                         (if js_includes name ?d then name else path_join ?d name)))
                  st (rev names))"
    using all ne by (rule for_each_templates)
  finally show "walk (Suc (Suc n)) e st ?d None =
          Some (foldl (\<lambda>s name. snd (main n e s
                         (if js_includes name ?d then name else path_join ?d name)))
                  st (rev names))" .
qed

theorem undefined_intermediate_is_soft_failure_witness:
  "read_file_sync site_state (js ''/site/src/broken.md'') = Inr (js ''{{ this.owner.name }}'')
   \<and> mrkdwn_slm site_env (include_js 0 site_env) site_state (js ''{{ this.owner.name }}'') =
       (Inr (js ''{{ this.owner.name }}''), site_state)
   \<and> var_blocks (js ''{{ this.owner.name }}'') = [js ''{{ this.owner.name }}'']
   \<and> js_includes (js ''{{ this.owner.name }}'') (js ''this.'')
   \<and> variable (js ''{{ this.owner.name }}'') = [js ''owner''] @ js ''name'' # []
   \<and> descend site_env (JObj (config site_env)) [js ''owner''] = Inr JUndefined
   \<and> (\<exists>x. compile_md (include_js 0 site_env) site_env site_state
               (js ''/site/src/broken.md'') (Some 0) =
             (JUndefined, log (LogError ''compile.md'' x) site_state))
   \<and> read_file_sync site_state (js ''/site/src/loop.md'') =
       Inr (js ''<p>include{{ loop.md }}</p>'')
   \<and> mrkdwn_slm site_env (include_js 0 site_env) site_state
         (js ''<p>include{{ loop.md }}</p>'') = (Inl RangeError, site_state)
   \<and> compile_md (include_js 0 site_env) site_env site_state
         (js ''/site/src/loop.md'') (Some 0) =
       (JUndefined, log (LogError ''compile.md'' RangeError) site_state)
   \<and> readdir_sync site_state (o_views (options site_env)) =
       Inr [js ''home.slm'', js ''inc.slm'', js ''notes.slm.bak'', js ''press.slm'']
   \<and> \<not> js_includes (o_views (options site_env)) (o_ext (options site_env))
   \<and> read_file_sync site_state (js ''/site/src/views/press.slm'') =
       Inr (js ''include broken.md'')
   \<and> walk (Suc (Suc (Suc 0))) site_env site_state (o_views (options site_env)) None =
       Some (snd (main (Suc 0) site_env
               (snd (main (Suc 0) site_env
                  (snd (main (Suc 0) site_env
                     (snd (main (Suc 0) site_env site_state
                        (js ''/site/src/views/press.slm'')))
                     (js ''/site/src/views/notes.slm.bak'')))
                  (js ''/site/src/views/inc.slm'')))
               (js ''/site/src/views/home.slm'')))
   \<and> map_option (\<lambda>s. take 1 (trace s))
         (walk (Suc (Suc (Suc 0))) site_env site_state (o_views (options site_env)) None) =
       Some [LogError ''compile.md'' TypeError]
   \<and> map_option (\<lambda>s. map (files s)
           [js ''/site/dist/press.html'', js ''/site/dist/notes.html.bak'',
            js ''/site/dist/inc.html'', js ''/site/dist/home.html''])
         (walk (Suc (Suc (Suc 0))) site_env site_state (o_views (options site_env)) None) =
       Some [Some (File (js ''undefined'')), Some (File (js ''Patterns'')),
             Some (File (js ''[Function: include]'')), Some (File (js ''Patterns''))]"
proof -
  let ?views = "o_views (options site_env)"
  let ?names = "[js ''home.slm'', js ''inc.slm'', js ''notes.slm.bak'', js ''press.slm'']"
  have a: "read_file_sync site_state (js ''/site/src/broken.md'') =
             Inr (js ''{{ this.owner.name }}'')"
    by code_simp
  have b: "marked site_env (config_prop (options site_env) (js ''marked''))
             (js ''{{ this.owner.name }}'') = Inr (js ''{{ this.owner.name }}'')"
    by (simp add: site_env_def)
  have "include_blocks (js ''{{ this.owner.name }}'') = []"
    by code_simp
  then have c: "mrkdwn_slm site_env (include_js 0 site_env) site_state
                  (js ''{{ this.owner.name }}'') =
                (Inr (js ''{{ this.owner.name }}''), site_state)"
    by (simp add: mrkdwn_slm_def)
  have d: "var_blocks (js ''{{ this.owner.name }}'') = [js ''{{ this.owner.name }}'']"
    by code_simp
  have d': "js ''{{ this.owner.name }}'' \<in> set (var_blocks (js ''{{ this.owner.name }}''))"
    unfolding d by simp
  have f: "js_includes (js ''{{ this.owner.name }}'') (js ''this.'')"
    by code_simp
  have g: "variable (js ''{{ this.owner.name }}'') = [js ''owner''] @ js ''name'' # []"
    by code_simp
  have h: "descend site_env (JObj (config site_env)) [js ''owner''] = Inr JUndefined"
    by code_simp
  have 1: "\<exists>x. compile_md (include_js 0 site_env) site_env site_state
               (js ''/site/src/broken.md'') (Some 0) =
             (JUndefined, log (LogError ''compile.md'' x) site_state)"
    by (rule mp [OF conjunct1 [OF undefined_intermediate_is_soft_failure
                                    [where inc = "include_js 0 site_env"
                                       and e = site_env and st = site_state]]
                 conjI [OF a conjI [OF b conjI [OF c conjI [OF d' conjI [OF f
                   conjI [OF g h]]]]]]])
  have la: "read_file_sync site_state (js ''/site/src/loop.md'') =
             Inr (js ''<p>include{{ loop.md }}</p>'')"
    by code_simp
  have lb: "marked site_env (config_prop (options site_env) (js ''marked''))
             (js ''<p>include{{ loop.md }}</p>'') = Inr (js ''<p>include{{ loop.md }}</p>'')"
    by (simp add: site_env_def)
  have "include_blocks (js ''<p>include{{ loop.md }}</p>'') = [js ''include{{ loop.md }}'']"
    by code_simp
  then have lc: "mrkdwn_slm site_env (include_js 0 site_env) site_state
         (js ''<p>include{{ loop.md }}</p>'') = (Inl RangeError, site_state)"
    by (simp add: mrkdwn_slm_def)
  have ld: "compile_md (include_js 0 site_env) site_env site_state
         (js ''/site/src/loop.md'') (Some 0) =
       (JUndefined, log (LogError ''compile.md'' RangeError) site_state)"
    by (rule mp [OF conjunct1 [OF conjunct2 [OF undefined_intermediate_is_soft_failure
                                    [where inc = "include_js 0 site_env"
                                       and e = site_env and st = site_state]]]
                 conjI [OF la conjI [OF lb lc]]])
  have i: "readdir_sync site_state ?views = Inr ?names"
    by code_simp
  have j: "?views \<noteq> []"
    by code_simp
  have k: "\<not> js_includes ?views (o_ext (options site_env))"
    by code_simp
  have l: "\<forall>name \<in> set ?names.
            js_includes (if js_includes name ?views then name else path_join ?views name)
              (o_ext (options site_env))"
    by code_simp
  have m: "read_file_sync site_state (js ''/site/src/views/press.slm'') =
             Inr (js ''include broken.md'')"
    by code_simp
  have p: "map (\<lambda>name. if js_includes name ?views then name else path_join ?views name)
             ?names =
           [js ''/site/src/views/home.slm'', js ''/site/src/views/inc.slm'',
            js ''/site/src/views/notes.slm.bak'', js ''/site/src/views/press.slm'']"
    by code_simp
  have 2: "walk (Suc (Suc (Suc 0))) site_env site_state ?views None =
          Some (foldl (\<lambda>s name. snd (main (Suc 0) site_env s
                         (if js_includes name ?views then name
                          else path_join ?views name))) site_state (rev ?names))"
    by (rule mp [OF conjunct2 [OF conjunct2 [OF undefined_intermediate_is_soft_failure
                                    [where e = site_env and st = site_state]]]
                 conjI [OF i conjI [OF j conjI [OF k l]]]])
  have 3: "walk (Suc (Suc (Suc 0))) site_env site_state ?views None =
       Some (snd (main (Suc 0) site_env
               (snd (main (Suc 0) site_env
                  (snd (main (Suc 0) site_env
                     (snd (main (Suc 0) site_env site_state
                        (js ''/site/src/views/press.slm'')))
                     (js ''/site/src/views/notes.slm.bak'')))
                  (js ''/site/src/views/inc.slm'')))
               (js ''/site/src/views/home.slm'')))"
    unfolding 2 using p by simp
  have 4: "map_option (\<lambda>s. take 1 (trace s))
         (walk (Suc (Suc (Suc 0))) site_env site_state ?views None) =
       Some [LogError ''compile.md'' TypeError]"
    by code_simp
  have 5: "map_option (\<lambda>s. map (files s)
           [js ''/site/dist/press.html'', js ''/site/dist/notes.html.bak'',
            js ''/site/dist/inc.html'', js ''/site/dist/home.html''])
         (walk (Suc (Suc (Suc 0))) site_env site_state ?views None) =
       Some [Some (File (js ''undefined'')), Some (File (js ''Patterns'')),
             Some (File (js ''[Function: include]'')), Some (File (js ''Patterns''))]"
    by code_simp
  from a c d f g h 1 la lc ld i k m 3 4 5 show ?thesis by (intro conjI)
qed

section \<open>The variable pass\<close>

text \<open>
  Every block that \<^verbatim>\<open>mrkdwn.vars\<close> finds has the form of a block and is a part of the
  document.  Two different blocks cannot overlap in a string, so replacing one occurrence
  of a block leaves every occurrence of another block in place.
\<close>

lemma is_space_not_brace: "is_space c \<Longrightarrow> c \<noteq> cu CHR ''{'' \<and> c \<noteq> cu CHR ''}''"
  by (auto simp: is_space_def)

lemma var_char_not_brace: "var_char c \<Longrightarrow> c \<noteq> cu CHR ''{'' \<and> c \<noteq> cu CHR ''}''"
  by (auto simp: var_char_def is_word_def)

lemma match_token_var:
  assumes "match_token (js ''{{'') var_char s = Some m"
  shows "block_shape m \<and> (\<exists>w. s = m @ w)"
proof -
  define s0 where "s0 = drop (length (js ''{{'')) s"
  define s1 where "s1 = dropWhile is_space s0"
  define s2 where "s2 = dropWhile var_char s1"
  define s3 where "s3 = dropWhile is_space s2"
  define A where "A = takeWhile is_space s0"
  define B where "B = takeWhile var_char s1"
  define C where "C = takeWhile is_space s2"
  have sw: "starts_with s (js ''{{'')"
    using assms by (auto simp: match_token_def split: if_splits)
  have rest: "B \<noteq> [] \<and> starts_with s3 (js ''}}'') \<and> m = take (length s - length s3 + 2) s"
    using assms sw
    unfolding match_token_def Let_def s0_def s1_def s2_def s3_def B_def
    by (simp split: if_splits)
  have e0: "s = js ''{{'' @ s0"
    using sw unfolding s0_def starts_with_def by (metis append_take_drop_id)
  have e1: "s0 = A @ s1" by (simp add: A_def s1_def)
  have e2: "s1 = B @ s2" by (simp add: B_def s2_def)
  have e3: "s2 = C @ s3" by (simp add: C_def s3_def)
  obtain s4 where e4: "s3 = js ''}}'' @ s4"
    using rest by (auto simp: starts_with_iff)
  have s: "s = (js ''{{'' @ (A @ B @ C) @ js ''}}'') @ s4"
    using e0 e1 e2 e3 e4 by simp
  have "length s - length s3 + 2 = length (js ''{{'' @ (A @ B @ C) @ js ''}}'')"
    unfolding s e4 by simp
  then have m: "m = js ''{{'' @ (A @ B @ C) @ js ''}}''"
    using rest s by (metis append_eq_conv_conj)
  have nA: "c \<noteq> cu CHR ''{'' \<and> c \<noteq> cu CHR ''}''" if "c \<in> set A" for c
    using that is_space_not_brace [of c] unfolding A_def by (auto dest: set_takeWhileD)
  have nB: "c \<noteq> cu CHR ''{'' \<and> c \<noteq> cu CHR ''}''" if "c \<in> set B" for c
    using that var_char_not_brace [of c] unfolding B_def by (auto dest: set_takeWhileD)
  have nC: "c \<noteq> cu CHR ''{'' \<and> c \<noteq> cu CHR ''}''" if "c \<in> set C" for c
    using that is_space_not_brace [of c] unfolding C_def by (auto dest: set_takeWhileD)
  have "cu CHR ''{'' \<notin> set (A @ B @ C) \<and> cu CHR ''}'' \<notin> set (A @ B @ C)"
    using nA nB nC by (metis Un_iff set_append)
  moreover have "A @ B @ C \<noteq> []" using rest by simp
  ultimately have "block_shape m" unfolding block_shape_def m by blast
  then show ?thesis using s m by blast
qed

lemma match_all_from_match_token:
  "m \<in> set (match_all tok cls s) \<Longrightarrow>
   \<exists>u s'. s = u @ s' \<and> match_token tok cls s' = Some m"
proof (induction tok cls s rule: match_all.induct)
  case (1 tok cls)
  then show ?case by simp
next
  case (2 tok cls c cs)
  show ?case
  proof (cases "match_token tok cls (c # cs)")
    case None
    then have "m \<in> set (match_all tok cls cs)" using "2.prems" by simp
    then obtain u s' where "cs = u @ s'" "match_token tok cls s' = Some m"
      using "2.IH"(1) None by blast
    then have "c # cs = (c # u) @ s'" "match_token tok cls s' = Some m" by simp_all
    then show ?thesis by blast
  next
    case (Some a)
    then consider "m = a" | "m \<in> set (match_all tok cls (drop (length a - 1) cs))"
      using "2.prems" by auto
    then show ?thesis
    proof cases
      case 1
      then have "c # cs = [] @ (c # cs)" "match_token tok cls (c # cs) = Some m"
        using Some by simp_all
      then show ?thesis by blast
    next
      case 2
      then obtain u s' where u: "drop (length a - 1) cs = u @ s'"
        and t: "match_token tok cls s' = Some m"
        using "2.IH"(2) Some by blast
      have "c # cs = (c # take (length a - 1) cs @ u) @ s'"
        using u by (metis append_Cons append_assoc append_take_drop_id)
      then show ?thesis using t by blast
    qed
  qed
qed

lemma var_blocks_shape:
  assumes "t \<in> set (var_blocks data)"
  shows "block_shape t \<and> (\<exists>u w. data = u @ t @ w)"
proof -
  obtain u s' where "data = u @ s'" "match_token (js ''{{'') var_char s' = Some t"
    using assms match_all_from_match_token unfolding var_blocks_def by blast
  then show ?thesis using match_token_var by blast
qed

lemma split_first_sound:
  "split_first acc s p = Some (fr, bk) \<Longrightarrow> rev acc @ s = fr @ p @ bk"
proof (induction acc s p rule: split_first.induct)
  case (1 acc p)
  then show ?case by (auto split: if_splits)
next
  case (2 acc c cs p)
  show ?case
  proof (cases "starts_with (c # cs) p")
    case True
    then have "fr = rev acc" "bk = drop (length p) (c # cs)" using "2.prems" by auto
    moreover have "c # cs = p @ drop (length p) (c # cs)"
      using True unfolding starts_with_def by (metis append_take_drop_id)
    ultimately show ?thesis by simp
  next
    case False
    then have "split_first (c # acc) cs p = Some (fr, bk)" using "2.prems" by simp
    then have "rev (c # acc) @ cs = fr @ p @ bk" using "2.IH" False by blast
    then show ?thesis by simp
  qed
qed

lemma takeWhile_stop: "x \<notin> set a \<Longrightarrow> takeWhile (\<lambda>c. c \<noteq> x) (a @ x # r) = a"
  by (induction a) auto

lemma same_start:
  assumes "block_shape t" and "block_shape e" and "t @ w = e @ bk"
  shows "t = e"
proof -
  obtain mt where t: "t = js ''{{'' @ mt @ js ''}}''" and nt: "cu CHR ''}'' \<notin> set mt"
    using assms(1) unfolding block_shape_def by blast
  obtain me where e: "e = js ''{{'' @ me @ js ''}}''" and ne: "cu CHR ''}'' \<notin> set me"
    using assms(2) unfolding block_shape_def by blast
  have "mt @ cu CHR ''}'' # (cu CHR ''}'' # w) = me @ cu CHR ''}'' # (cu CHR ''}'' # bk)"
    using assms(3) unfolding t e by simp
  then have "takeWhile (\<lambda>c. c \<noteq> cu CHR ''}'') (mt @ cu CHR ''}'' # (cu CHR ''}'' # w)) =
             takeWhile (\<lambda>c. c \<noteq> cu CHR ''}'') (me @ cu CHR ''}'' # (cu CHR ''}'' # bk))"
    by (rule arg_cong)
  moreover have "takeWhile (\<lambda>c. c \<noteq> cu CHR ''}'') (mt @ cu CHR ''}'' # (cu CHR ''}'' # w)) = mt"
    using nt by (rule takeWhile_stop)
  moreover have "takeWhile (\<lambda>c. c \<noteq> cu CHR ''}'') (me @ cu CHR ''}'' # (cu CHR ''}'' # bk)) = me"
    using ne by (rule takeWhile_stop)
  ultimately have "mt = me" by simp
  then show ?thesis unfolding t e by simp
qed

lemma strictly_inside:
  assumes "block_shape e" and "block_shape t" and "e = us @ vs" and "us \<noteq> []" and "vs \<noteq> []"
    and "t @ w = vs @ bk"
  shows False
proof -
  obtain mt where t: "t = js ''{{'' @ mt @ js ''}}''"
    using assms(2) unfolding block_shape_def by blast
  obtain me where e: "e = js ''{{'' @ me @ js ''}}''"
    and me: "me \<noteq> []" "cu CHR ''{'' \<notin> set me"
    using assms(1) unfolding block_shape_def by blast
  obtain v vs' where vs: "vs = v # vs'" using assms(5) by (cases vs) auto
  have "v = cu CHR ''{'' \<and> cu CHR ''{'' # mt @ js ''}}'' @ w = vs' @ bk"
    using assms(6) unfolding t vs by auto
  then have v: "v = cu CHR ''{''" and r1: "cu CHR ''{'' # mt @ js ''}}'' @ w = vs' @ bk"
    by simp_all
  obtain a us' where us: "us = a # us'" using assms(4) by (cases us) auto
  have r2: "cu CHR ''{'' # me @ js ''}}'' = us' @ cu CHR ''{'' # vs'"
    using assms(3) unfolding e us vs v by auto
  show False
  proof (cases us')
    case Nil
    then have "vs' = me @ js ''}}''" using r2 by simp
    then have "cu CHR ''{'' # mt @ js ''}}'' @ w = me @ js ''}}'' @ bk" using r1 by simp
    then have "hd me = cu CHR ''{''" using me(1) by (cases me) auto
    then show False using me by (cases me) auto
  next
    case (Cons b us'')
    then have "me @ js ''}}'' = us'' @ cu CHR ''{'' # vs'" using r2 by simp
    then have "cu CHR ''{'' \<in> set (me @ js ''}}'')" by (metis in_set_conv_decomp)
    then show False using me(2) by simp
  qed
qed

text \<open>
  An occurrence of a block lies wholly before or wholly after an occurrence of another
  block.
\<close>

lemma no_overlap:
  assumes "block_shape t" and "block_shape e" and "t \<noteq> e"
    and "u @ t @ w = fr @ e @ bk"
  shows "(\<exists>y. fr = u @ t @ y) \<or> (\<exists>z. u = fr @ e @ z)"
proof -
  have "\<exists>us. u = fr @ us \<and> us @ (t @ w) = e @ bk
            \<or> u @ us = fr \<and> t @ w = us @ (e @ bk)"
    by (rule iffD1 [OF append_eq_append_conv2 assms(4)])
  then obtain us where
    split: "u = fr @ us \<and> us @ (t @ w) = e @ bk
            \<or> u @ us = fr \<and> t @ w = us @ (e @ bk)" ..
  show ?thesis
  proof (cases "u = fr @ us \<and> us @ (t @ w) = e @ bk")
    case True
    then have u: "u = fr @ us" and later: "us @ (t @ w) = e @ bk" by simp_all
    have "\<exists>vs. us = e @ vs \<and> vs @ (t @ w) = bk \<or> us @ vs = e \<and> t @ w = vs @ bk"
      by (rule iffD1 [OF append_eq_append_conv2 later])
    then obtain vs where
      inner: "us = e @ vs \<and> vs @ (t @ w) = bk \<or> us @ vs = e \<and> t @ w = vs @ bk" ..
    show ?thesis
    proof (cases "us = e @ vs \<and> vs @ (t @ w) = bk")
      case True
      then have "u = fr @ e @ vs" using u by simp
      then show ?thesis by blast
    next
      case False
      then have h: "us @ vs = e" "t @ w = vs @ bk" using inner by blast+
      show ?thesis
      proof (cases "vs = []")
        case True
        then have "u = fr @ e @ []" using h u by simp
        then show ?thesis by blast
      next
        case vsne: False
        show ?thesis
        proof (cases "us = []")
          case True
          then have "t @ w = e @ bk" using h by simp
          then have "t = e" using same_start assms(1,2) by blast
          then show ?thesis using assms(3) by simp
        next
          case usne: False
          have "e = us @ vs" using h by simp
          then have False
            using strictly_inside [OF assms(2) assms(1) _ usne vsne h(2)] by blast
          then show ?thesis ..
        qed
      qed
    qed
  next
    case False
    then have h: "u @ us = fr" "t @ w = us @ (e @ bk)" using split by blast+
    have "\<exists>vs. t = us @ vs \<and> vs @ w = e @ bk \<or> t @ vs = us \<and> w = vs @ (e @ bk)"
      by (rule iffD1 [OF append_eq_append_conv2 h(2)])
    then obtain vs where
      inner: "t = us @ vs \<and> vs @ w = e @ bk \<or> t @ vs = us \<and> w = vs @ (e @ bk)" ..
    show ?thesis
    proof (cases "t = us @ vs \<and> vs @ w = e @ bk")
      case True
      then have g: "t = us @ vs" "vs @ w = e @ bk" by blast+
      show ?thesis
      proof (cases "vs = []")
        case True
        then have "fr = u @ t @ []" using g h by simp
        then show ?thesis by blast
      next
        case vsne: False
        show ?thesis
        proof (cases "us = []")
          case True
          then have "t @ w = e @ bk" using g by simp
          then have "t = e" using same_start assms(1,2) by blast
          then show ?thesis using assms(3) by simp
        next
          case usne: False
          have "e @ bk = vs @ w" using g by simp
          then have False
            using strictly_inside [OF assms(1) assms(2) g(1) usne vsne] by blast
          then show ?thesis ..
        qed
      qed
    next
      case False
      then have "t @ vs = us" using inner by blast
      then have "fr = u @ t @ vs" using h by simp
      then show ?thesis by blast
    qed
  qed
qed

text \<open>What \<^verbatim>\<open>data.replace(element, obj)\<close> can change is one occurrence of the element.\<close>

lemma replace_value_frame:
  assumes "replace_value e data element v = Inr d'"
  shows "d' = data \<or> (\<exists>front bk x. data = front @ element @ bk \<and> d' = front @ x @ bk)"
proof (cases "split_first [] data element")
  case None
  then have "d' = data"
    using assms by (cases v) (simp_all add: replace_value_def js_replace_def)
  then show ?thesis ..
next
  case (Some fb)
  obtain front bk where fb: "fb = (front, bk)" by (cases fb)
  have d: "data = front @ element @ bk"
    using split_first_sound [of "[]" data element front bk] Some fb by simp
  have "\<exists>x. d' = front @ x @ bk"
    using assms Some fb
    by (cases v) (auto simp: replace_value_def js_replace_def split: sum.splits)
  then show ?thesis using d by blast
qed

lemma vars_each_rewrites:
  assumes shape: "\<forall>b \<in> B. \<forall>t \<in> T. block_shape b \<and> block_shape t \<and> t \<noteq> b"
  shows "\<forall>b \<in> set blocks. js_includes b (js ''this.'') \<longrightarrow> b \<in> B \<Longrightarrow>
         vars_each e data blocks = Inr out \<Longrightarrow> rtranclp (rewrites_block B T) data out"
proof (induction blocks arbitrary: data)
  case Nil
  then show ?case by simp
next
  case (Cons b blocks)
  have rest: "\<forall>b \<in> set blocks. js_includes b (js ''this.'') \<longrightarrow> b \<in> B"
    using Cons.prems(1) by simp
  show ?case
  proof (cases "js_includes b (js ''this.'')")
    case False
    then have "vars_each e data blocks = Inr out" using Cons.prems(2) by simp
    then show ?thesis using Cons.IH rest by blast
  next
    case True
    then have bB: "b \<in> B" using Cons.prems(1) by simp
    obtain v where v: "descend e (JObj (o_config (options e))) (variable b) = Inr v"
      using Cons.prems(2) True
      by (cases "descend e (JObj (o_config (options e))) (variable b)") auto
    obtain d' where d': "replace_value e data b v = Inr d'"
      using Cons.prems(2) True v by (cases "replace_value e data b v") auto
    have run: "vars_each e d' blocks = Inr out"
      using Cons.prems(2) True v d' by simp
    have tail: "rtranclp (rewrites_block B T) d' out"
      using Cons.IH rest run by blast
    from replace_value_frame [OF d']
    show ?thesis
    proof
      assume "d' = data"
      then show ?thesis using tail by simp
    next
      assume "\<exists>front bk x. data = front @ b @ bk \<and> d' = front @ x @ bk"
      then obtain front bk x where f: "data = front @ b @ bk" "d' = front @ x @ bk"
        by blast
      have "(\<exists>y. front = u @ t @ y) \<or> (\<exists>z. u = front @ b @ z)"
        if "t \<in> T" and "data = u @ t @ w" for t u w
      proof -
        have "block_shape t" "block_shape b" "t \<noteq> b" using shape bB that(1) by blast+
        moreover have "u @ t @ w = front @ b @ bk" using that(2) f(1) by simp
        ultimately show ?thesis by (rule no_overlap)
      qed
      then have "rewrites_block B T data d'"
        unfolding rewrites_block_def using bB f by blast
      then show ?thesis using tail by (rule converse_rtranclp_into_rtranclp)
    qed
  qed
qed

text \<open>\<^verbatim>\<open>occurrences\<close> counts the places at which the text occurs.\<close>

lemma occurrences_card: "occurrences t s = card {u. \<exists>w. s = u @ t @ w}"
proof (induction s)
  case Nil
  have "{u. \<exists>w. [] = u @ t @ w} = (if t = [] then {[]} else {})" by auto
  then show ?case by simp
next
  case (Cons c cs)
  let ?here = "if starts_with (c # cs) t then {[] :: jstring} else {}"
  let ?later = "(#) c ` {u. \<exists>w. cs = u @ t @ w}"
  have split: "{u. \<exists>w. c # cs = u @ t @ w} = ?here \<union> ?later"
  proof (intro set_eqI iffI)
    fix u assume "u \<in> {u. \<exists>w. c # cs = u @ t @ w}"
    then obtain w where w: "c # cs = u @ t @ w" by blast
    show "u \<in> ?here \<union> ?later"
    proof (cases u)
      case Nil
      then have "starts_with (c # cs) t" using w by (simp add: starts_with_iff)
      then show ?thesis using Nil by simp
    next
      case (Cons a u')
      then have "a = c" "cs = u' @ t @ w" using w by simp_all
      then show ?thesis using Cons by blast
    qed
  next
    fix u assume "u \<in> ?here \<union> ?later"
    then consider "starts_with (c # cs) t" "u = []" | u' w where "u = c # u'" "cs = u' @ t @ w"
      by (auto split: if_splits)
    then show "u \<in> {u. \<exists>w. c # cs = u @ t @ w}"
    proof cases
      case 1
      then show ?thesis by (auto simp: starts_with_iff)
    next
      case 2
      then show ?thesis by auto
    qed
  qed
  have fin: "finite {u. \<exists>w. cs = u @ t @ w}"
  proof (rule finite_subset)
    show "{u. \<exists>w. cs = u @ t @ w} \<subseteq> (\<lambda>n. take n cs) ` {..length cs}"
    proof
      fix u assume "u \<in> {u. \<exists>w. cs = u @ t @ w}"
      then obtain w where "cs = u @ t @ w" by blast
      then have "u = take (length u) cs" "length u \<le> length cs" by simp_all
      then show "u \<in> (\<lambda>n. take n cs) ` {..length cs}" by blast
    qed
  qed simp
  have disj: "?here \<inter> ?later = {}" by auto
  have un: "card (?here \<union> ?later) = card ?here + card ?later"
    using fin disj by (simp add: card_Un_disjoint)
  have img: "card ?later = card {u. \<exists>w. cs = u @ t @ w}"
    by (rule card_image) simp
  have here: "card ?here = (if starts_with (c # cs) t then 1 else 0)"
    by simp
  have "occurrences t (c # cs) =
          (if starts_with (c # cs) t then 1 else 0) + occurrences t cs"
    by simp
  also have "\<dots> = card ?here + card ?later"
    by (simp only: here img Cons)
  also have "\<dots> = card (?here \<union> ?later)"
    by (rule un [symmetric])
  also have "\<dots> = card {u. \<exists>w. c # cs = u @ t @ w}"
    by (simp only: split)
  finally show ?case .
qed

lemma finite_occurrences: "finite {u. \<exists>w. s = u @ t @ (w :: 'a list)}"
proof (rule finite_subset)
  show "{u. \<exists>w. s = u @ t @ w} \<subseteq> (\<lambda>n. take n s) ` {..length s}"
  proof
    fix u assume "u \<in> {u. \<exists>w. s = u @ t @ w}"
    then obtain w where "s = u @ t @ w" by blast
    then have "u = take (length u) s" "length u \<le> length s" by simp_all
    then show "u \<in> (\<lambda>n. take n s) ` {..length s}" by blast
  qed
qed simp

lemma rewrites_block_count:
  assumes "rewrites_block B T d d'" and "t \<in> T" and "t \<noteq> []"
  shows "occurrences t d \<le> occurrences t d'"
proof -
  obtain front b bk x where b: "d = front @ b @ bk" "d' = front @ x @ bk"
    and pos: "\<forall>u w. d = u @ t @ w \<longrightarrow> (\<exists>y. front = u @ t @ y) \<or> (\<exists>z. u = front @ b @ z)"
    using assms(1,2) unfolding rewrites_block_def by blast
  define f where "f u = (if \<exists>y. front = u @ t @ y then u
                         else front @ x @ drop (length front + length b) u)" for u
  have fT: "f u = u" if "\<exists>y. front = u @ t @ y" for u
    using that unfolding f_def by (simp only: if_True)
  have fF: "f u = front @ x @ drop (length front + length b) u"
    if "\<not> (\<exists>y. front = u @ t @ y)" for u
    using that unfolding f_def by (simp only: if_False)
  have dr: "drop (length front + length b) (front @ b @ z) = z" for z
    by simp
  let ?A = "{u. \<exists>w. d = u @ t @ w}"
  let ?A' = "{u. \<exists>w. d' = u @ t @ w}"
  have into: "f u \<in> ?A'" if uA: "u \<in> ?A" for u
  proof (cases "\<exists>y. front = u @ t @ y")
    case True
    then obtain y where "front = u @ t @ y" ..
    then have "d' = u @ t @ (y @ x @ bk)" using b(2) by simp
    then show ?thesis using fT [OF True] by auto
  next
    case False
    obtain w where w: "d = u @ t @ w" using uA by blast
    then obtain z where z: "u = front @ b @ z" using pos False by blast
    then have "bk = z @ t @ w" using w b(1) by simp
    then have "d' = (front @ x @ z) @ t @ w" using b(2) by simp
    moreover have "f u = front @ x @ z" using fF [OF False] dr [of z] unfolding z by simp
    ultimately show ?thesis by auto
  qed
  have inj: "inj_on f ?A"
  proof (rule inj_onI)
    fix u v assume u: "u \<in> ?A" and v: "v \<in> ?A" and eq: "f u = f v"
    have far: "\<exists>z. u = front @ b @ z" if "u \<in> ?A" "\<not> (\<exists>y. front = u @ t @ y)" for u
      using that pos by blast
    have short: "length u < length front" if "\<exists>y. front = u @ t @ y" for u
      using that assms(3) by auto
    have long: "length front \<le> length (f u)" if "\<not> (\<exists>y. front = u @ t @ y)" for u
      using fF [OF that] by simp
    show "u = v"
    proof (cases "\<exists>y. front = u @ t @ y")
      case True
      note Tu = True
      show ?thesis
      proof (cases "\<exists>y. front = v @ t @ y")
        case True
        have "u = f u" by (rule fT [OF Tu, symmetric])
        also have "\<dots> = f v" by (rule eq)
        also have "\<dots> = v" by (rule fT [OF True])
        finally show ?thesis .
      next
        case False
        have "f u = u" using Tu by (rule fT)
        then have "length (f v) < length front" using short [OF Tu] eq by simp
        then show ?thesis using long [OF False] by simp
      qed
    next
      case False
      note Fu = False
      show ?thesis
      proof (cases "\<exists>y. front = v @ t @ y")
        case True
        have "f v = v" using True by (rule fT)
        then have "length (f u) < length front" using short [OF True] eq by simp
        then show ?thesis using long [OF Fu] by simp
      next
        case False
        obtain zu where zu: "u = front @ b @ zu" using far [OF u Fu] ..
        obtain zv where zv: "v = front @ b @ zv" using far [OF v False] ..
        have "f u = front @ x @ zu" using fF [OF Fu] dr [of zu] unfolding zu by simp
        moreover have "f v = front @ x @ zv" using fF [OF False] dr [of zv] unfolding zv by simp
        ultimately have "zu = zv" using eq by simp
        then show ?thesis using zu zv by simp
      qed
    qed
  qed
  have "card ?A \<le> card ?A'"
    using inj into finite_occurrences by (intro card_inj_on_le [of f]) auto
  then show ?thesis by (simp add: occurrences_card)
qed

lemma rewrites_count:
  assumes "rtranclp (rewrites_block B T) d d'" and "t \<in> T" and "t \<noteq> []"
  shows "occurrences t d \<le> occurrences t d'"
  using assms(1)
proof (induction rule: rtranclp_induct)
  case base
  then show ?case by simp
next
  case (step y z)
  then show ?case using rewrites_block_count [OF step.hyps(2) assms(2,3)] by simp
qed

lemma vars_each_untouched:
  "\<forall>b \<in> set blocks. \<not> js_includes b (js ''this.'') \<Longrightarrow> vars_each e data blocks = Inr data"
  by (induction blocks) auto

text \<open>
  C3, as the claim states it, fails.  The path of the block \<^verbatim>\<open>{{ site.this.name }}\<close> does not
  begin with \<^verbatim>\<open>this.\<close>, but the block contains \<^verbatim>\<open>this.\<close>, so it is substituted: the first
  \<^verbatim>\<open>this.\<close> is removed and the remaining path \<^verbatim>\<open>site.name\<close> is looked up.
\<close>

theorem block_with_inner_this_is_substituted:
  "var_blocks (js ''<p>{{ site.this.name }}</p>'') = [js ''{{ site.this.name }}'']
   \<and> \<not> starts_with (js ''site.this.name'') (js ''this.'')
   \<and> mrkdwn_vars site_env (js ''<p>{{ site.this.name }}</p>'') = Inr (js ''<p>NYC</p>'')"
proof -
  have a: "var_blocks (js ''<p>{{ site.this.name }}</p>'') = [js ''{{ site.this.name }}'']"
    by code_simp
  have b: "\<not> starts_with (js ''site.this.name'') (js ''this.'')"
    by code_simp
  have c: "mrkdwn_vars site_env (js ''<p>{{ site.this.name }}</p>'') = Inr (js ''<p>NYC</p>'')"
    by code_simp
  from a b c show ?thesis by (intro conjI)
qed

text \<open>
  C3, amended.  In the markdown variable pass only the \<^verbatim>\<open>{{ ... }}\<close> blocks that contain
  the text \<^verbatim>\<open>this.\<close> are substituted.  A document none of whose blocks contains \<^verbatim>\<open>this.\<close>
  comes out unchanged.  For every document, the output is reached from the document by
  steps that each replace one occurrence of a block containing \<^verbatim>\<open>this.\<close>, and in each
  step every occurrence of a block without \<^verbatim>\<open>this.\<close> lies wholly before or wholly after
  the replaced occurrence, so that it is carried over character for character: a block
  without \<^verbatim>\<open>this.\<close> occurs in the output at least as many times as in the document.
  A document whose only block contains \<^verbatim>\<open>this.\<close>, with a path that leads to a string
  without a dollar sign, comes out with that string in the place of the block.
\<close>

theorem only_blocks_containing_this_are_substituted:
  "((\<forall>element \<in> set (var_blocks data). \<not> js_includes element (js ''this.'')) \<longrightarrow>
      mrkdwn_vars e data = Inr data)
   \<and> (mrkdwn_vars e data = Inr out \<longrightarrow>
        rtranclp
          (rewrites_block {b \<in> set (var_blocks data). js_includes b (js ''this.'')}
                          {t \<in> set (var_blocks data). \<not> js_includes t (js ''this.'')})
          data out)
   \<and> (t \<in> set (var_blocks data) \<and> \<not> js_includes t (js ''this.'')
        \<and> mrkdwn_vars e data = Inr out
      \<longrightarrow> occurrences t data \<le> occurrences t out \<and> (\<exists>u w. out = u @ t @ w))
   \<and> (var_blocks data = [b] \<and> js_includes b (js ''this.'')
        \<and> split_first [] data b = Some (front, rest)
        \<and> descend e (JObj (config e)) (variable b) = Inr (JStr v)
        \<and> cu CHR ''$'' \<notin> set v
      \<longrightarrow> mrkdwn_vars e data = Inr (front @ v @ rest))"
proof -
  let ?B = "{b \<in> set (var_blocks data). js_includes b (js ''this.'')}"
  let ?T = "{t \<in> set (var_blocks data). \<not> js_includes t (js ''this.'')}"
  have shape: "\<forall>b \<in> ?B. \<forall>t \<in> ?T. block_shape b \<and> block_shape t \<and> t \<noteq> b"
    using var_blocks_shape by blast
  have blocks: "\<forall>b \<in> set (var_blocks data). js_includes b (js ''this.'') \<longrightarrow> b \<in> ?B"
    by simp
  have 1: "mrkdwn_vars e data = Inr data"
    if "\<forall>element \<in> set (var_blocks data). \<not> js_includes element (js ''this.'')"
    using that unfolding mrkdwn_vars_def by (rule vars_each_untouched)
  have 2: "rtranclp (rewrites_block ?B ?T) data out" if "mrkdwn_vars e data = Inr out" for out
    using that unfolding mrkdwn_vars_def by (rule vars_each_rewrites [OF shape blocks])
  have 3: "occurrences t data \<le> occurrences t out \<and> (\<exists>u w. out = u @ t @ w)"
    if h: "t \<in> set (var_blocks data) \<and> \<not> js_includes t (js ''this.'')
           \<and> mrkdwn_vars e data = Inr out"
  proof -
    have tT: "t \<in> ?T" using h by simp
    have "block_shape t" using h var_blocks_shape by blast
    then have ne: "t \<noteq> []" unfolding block_shape_def by auto
    have le: "occurrences t data \<le> occurrences t out"
      using 2 tT ne h by (intro rewrites_count) auto
    obtain u w where "data = u @ t @ w" using h var_blocks_shape by blast
    then have "u \<in> {u. \<exists>w. data = u @ t @ w}" by blast
    then have "card {u. \<exists>w. data = u @ t @ w} \<noteq> 0"
      using finite_occurrences [of data t] by auto
    then have "occurrences t out \<noteq> 0" using le by (simp add: occurrences_card)
    then have "{u. \<exists>w. out = u @ t @ w} \<noteq> {}"
      unfolding occurrences_card by (metis card.empty)
    then show ?thesis using le by blast
  qed
  have 4: "mrkdwn_vars e data = Inr (front @ v @ rest)"
    if "var_blocks data = [b] \<and> js_includes b (js ''this.'')
        \<and> split_first [] data b = Some (front, rest)
        \<and> descend e (JObj (config e)) (variable b) = Inr (JStr v)
        \<and> cu CHR ''$'' \<notin> set v"
    using that by (simp add: mrkdwn_vars_def replace_value_string)
  from 1 2 3 4 show ?thesis by blast
qed

theorem only_blocks_containing_this_are_substituted_witness:
  "var_blocks (js ''<p>{{ foo }}</p>'') = [js ''{{ foo }}'']
   \<and> \<not> js_includes (js ''{{ foo }}'') (js ''this.'')
   \<and> mrkdwn_vars site_env (js ''<p>{{ foo }}</p>'') = Inr (js ''<p>{{ foo }}</p>'')
   \<and> var_blocks (js ''<p>{{ foo }}, {{ foo }} by {{ this.site.name }}</p>'') =
       [js ''{{ foo }}'', js ''{{ foo }}'', js ''{{ this.site.name }}'']
   \<and> mrkdwn_vars site_env (js ''<p>{{ foo }}, {{ foo }} by {{ this.site.name }}</p>'') =
       Inr (js ''<p>{{ foo }}, {{ foo }} by NYC</p>'')
   \<and> occurrences (js ''{{ foo }}'') (js ''<p>{{ foo }}, {{ foo }} by {{ this.site.name }}</p>'')
       = 2
   \<and> occurrences (js ''{{ foo }}'') (js ''<p>{{ foo }}, {{ foo }} by NYC</p>'') = 2
   \<and> occurrences (js ''{{ foo }}'') (js ''<p>{{ foo }}, {{ foo }} by {{ this.site.name }}</p>'')
       \<le> occurrences (js ''{{ foo }}'') (js ''<p>{{ foo }}, {{ foo }} by NYC</p>'')
   \<and> (\<exists>u w. js ''<p>{{ foo }}, {{ foo }} by NYC</p>'' = u @ js ''{{ foo }}'' @ w)
   \<and> var_blocks (js ''<p>'' @ [123, 123, 0xA0] @ js ''this.site.name'' @ [0x2028, 125, 125]
         @ js ''</p>'') =
       [[123, 123, 0xA0] @ js ''this.site.name'' @ [0x2028, 125, 125]]
   \<and> js_includes ([123, 123, 0xA0] @ js ''this.site.name'' @ [0x2028, 125, 125]) (js ''this.'')
   \<and> split_first []
         (js ''<p>'' @ [123, 123, 0xA0] @ js ''this.site.name'' @ [0x2028, 125, 125]
            @ js ''</p>'')
         ([123, 123, 0xA0] @ js ''this.site.name'' @ [0x2028, 125, 125]) =
       Some (js ''<p>'', js ''</p>'')
   \<and> descend site_env (JObj (config site_env))
         (variable ([123, 123, 0xA0] @ js ''this.site.name'' @ [0x2028, 125, 125])) =
       Inr (JStr (js ''NYC''))
   \<and> cu CHR ''$'' \<notin> set (js ''NYC'')
   \<and> mrkdwn_vars site_env
         (js ''<p>'' @ [123, 123, 0xA0] @ js ''this.site.name'' @ [0x2028, 125, 125]
            @ js ''</p>'') =
       Inr (js ''<p>'' @ js ''NYC'' @ js ''</p>'')"
proof -
  let ?D = "js ''<p>{{ foo }}, {{ foo }} by {{ this.site.name }}</p>''"
  let ?O = "js ''<p>{{ foo }}, {{ foo }} by NYC</p>''"
  let ?b = "[123, 123, 0xA0] @ js ''this.site.name'' @ [0x2028, 125, 125] :: jstring"
  have a0: "var_blocks (js ''<p>{{ foo }}</p>'') = [js ''{{ foo }}'']"
    by code_simp
  have c: "\<not> js_includes (js ''{{ foo }}'') (js ''this.'')"
    by code_simp
  have a: "\<forall>element \<in> set (var_blocks (js ''<p>{{ foo }}</p>'')).
             \<not> js_includes element (js ''this.'')"
    unfolding a0 using c by simp
  have 1: "mrkdwn_vars site_env (js ''<p>{{ foo }}</p>'') = Inr (js ''<p>{{ foo }}</p>'')"
    by (rule mp [OF conjunct1 [OF only_blocks_containing_this_are_substituted] a])
  have b0: "var_blocks ?D = [js ''{{ foo }}'', js ''{{ foo }}'', js ''{{ this.site.name }}'']"
    by code_simp
  have b: "js ''{{ foo }}'' \<in> set (var_blocks ?D)"
    unfolding b0 by simp
  have d: "mrkdwn_vars site_env ?D = Inr ?O"
    by code_simp
  have n1: "occurrences (js ''{{ foo }}'') ?D = 2"
    by code_simp
  have n2: "occurrences (js ''{{ foo }}'') ?O = 2"
    by code_simp
  have 3: "occurrences (js ''{{ foo }}'') ?D \<le> occurrences (js ''{{ foo }}'') ?O
           \<and> (\<exists>u w. ?O = u @ js ''{{ foo }}'' @ w)"
    by (rule mp [OF conjunct1 [OF conjunct2 [OF conjunct2
          [OF only_blocks_containing_this_are_substituted [where e = site_env]]]]
          conjI [OF b conjI [OF c d]]])
  have g1: "var_blocks (js ''<p>'' @ ?b @ js ''</p>'') = [?b]"
    by code_simp
  have g2: "js_includes ?b (js ''this.'')"
    by code_simp
  have g3: "split_first [] (js ''<p>'' @ ?b @ js ''</p>'') ?b = Some (js ''<p>'', js ''</p>'')"
    by code_simp
  have g4: "descend site_env (JObj (config site_env)) (variable ?b) = Inr (JStr (js ''NYC''))"
    by code_simp
  have g5: "cu CHR ''$'' \<notin> set (js ''NYC'')"
    by simp
  have 4: "mrkdwn_vars site_env (js ''<p>'' @ ?b @ js ''</p>'') =
             Inr (js ''<p>'' @ js ''NYC'' @ js ''</p>'')"
    by (rule mp [OF conjunct2 [OF conjunct2 [OF conjunct2
          [OF only_blocks_containing_this_are_substituted [where e = site_env]]]]
          conjI [OF g1 conjI [OF g2 conjI [OF g3 conjI [OF g4 g5]]]]])
  from a0 c 1 b0 d n1 n2 3 g1 g2 g3 g4 g5 4 show ?thesis by (intro conjI) auto
qed

end
